theory Spec2Isabelle
  imports Main "HOL-Library.Word"
begin

section \<open>The captive stellar-core ledger backend\<close>

text \<open>
  A shallow embedding of \<^verbatim>\<open>exp/ingest/ledgerbackend/captive_core_backend.go\<close>.

  \<^item> Ledger sequence numbers are \<^verbatim>\<open>uint32\<close>: 32-bit words, whose \<open>+\<close>, \<open>-\<close> and \<open>*\<close> wrap.
  \<^item> A Go \<^verbatim>\<open>error\<close> value is identified with its message; \<^verbatim>\<open>nil\<close> is \<open>None\<close>.
  \<^item> The struct \<^verbatim>\<open>captiveStellarCore\<close> is a record that every method takes and returns.
  \<^item> A method either panics, blocks forever on a channel receive, or returns its Go
    result tuple together with the updated struct.
  \<^item> The read-ahead goroutine \<^verbatim>\<open>sendLedgerMeta\<close> is deterministic in what it sends: the frames
    of the pipe in order, until a frame reaches \<^verbatim>\<open>untilSequence\<close> or a read fails. The channel
    \<^verbatim>\<open>metaC\<close> is therefore modelled by the list of results that are still to be received on it.
    The mutex and the wait group have no sequential content (one consumer, and the goroutine
    never touches \<^verbatim>\<open>nextLedger\<close>). Every read of the pipe is taken to return: the child writes
    a frame or ends its output.
  \<^item> The collaborators (history archive, subprocess runner) are oracles of an environment,
    indexed by the number of collaborator calls made so far, so that they may answer
    differently each time.
\<close>

type_synonym u32 = "32 word"

type_synonym error = string

subsection \<open>Errors and formatting\<close>

text \<open>\<^verbatim>\<open>%d\<close> of an unsigned integer.\<close>

fun decimal :: "nat \<Rightarrow> string" where
  "decimal n = (if n < 10 then [''0123456789'' ! n]
                else decimal (n div 10) @ [''0123456789'' ! (n mod 10)])"

declare decimal.simps [simp del]

text \<open>\<^verbatim>\<open>errors.Wrap(e, msg)\<close> of github.com/pkg/errors: the message is \<^verbatim>\<open>msg: e\<close>.\<close>

definition errors_Wrap :: "error \<Rightarrow> string \<Rightarrow> error" where
  "errors_Wrap e msg = msg @ '': '' @ e"

definition io_EOF :: error where
  "io_EOF = ''EOF''"

text \<open>The message of \<^verbatim>\<open>errors.Errorf("sequence %d greater than max available %d", a, b)\<close>.\<close>

definition sequenceGreaterThanMax :: "u32 \<Rightarrow> u32 \<Rightarrow> error" where
  "sequenceGreaterThanMax a b =
     ''sequence '' @ decimal (unat a) @ '' greater than max available '' @ decimal (unat b)"

text \<open>The message of \<^verbatim>\<open>errors.Errorf("unexpected ledger (expected=%d actual=%d)", a, b)\<close>.\<close>

definition unexpectedLedger :: "u32 \<Rightarrow> u32 \<Rightarrow> error" where
  "unexpectedLedger a b =
     ''unexpected ledger (expected='' @ decimal (unat a) @ '' actual='' @ decimal (unat b) @ '')''"

subsection \<open>Constants\<close>

definition ledgersPerProcess :: u32 where
  "ledgersPerProcess = 17280"

definition numCheckpointsLeeway :: u32 where
  "numCheckpointsLeeway = 10"

definition readAheadBufferSize :: nat where
  "readAheadBufferSize = 2"

text \<open>
  Modelled from the spec: the constant \<^verbatim>\<open>ledgersPerCheckpoint\<close> is declared in another file of
  the package, which is not among the sources. The spec calls it a fixed domain constant,
  ``typically 64'', and all its scenarios use 64.
\<close>

definition ledgersPerCheckpoint :: u32 where
  "ledgersPerCheckpoint = 64"

definition roundDownToFirstReplayAfterCheckpointStart :: "u32 \<Rightarrow> u32" where
  "roundDownToFirstReplayAfterCheckpointStart ledger =
     (let v = (ledger div ledgersPerCheckpoint) * ledgersPerCheckpoint
      in if v = 0 then 1 else v)"

subsection \<open>Data\<close>

text \<open>
  \<^verbatim>\<open>xdr.LedgerCloseMeta\<close> is opaque but for its sequence number; \<open>body\<close> stands for the rest.
\<close>

datatype LedgerCloseMeta = LedgerCloseMetaV0 (LedgerSequence: u32) (body: nat)

text \<open>The zero value \<^verbatim>\<open>xdr.LedgerCloseMeta{}\<close> that accompanies an error.\<close>

definition emptyLedgerCloseMeta :: LedgerCloseMeta where
  "emptyLedgerCloseMeta = LedgerCloseMetaV0 0 0"

text \<open>\<^verbatim>\<open>struct { *xdr.LedgerCloseMeta; err error }\<close>\<close>

record metaResult =
  meta :: "LedgerCloseMeta option"
  err :: "error option"

text \<open>
  One read of \<^verbatim>\<open>xdr.UnmarshalFramed\<close> on the child's pipe: a decoded frame, or a decoding
  error. The end of the list is the end of the child's output, \<^verbatim>\<open>io.EOF\<close>.
\<close>

datatype frame = Frame LedgerCloseMeta | Garbled error

type_synonym pipe = "frame list"

text \<open>A Go channel variable: \<^verbatim>\<open>nil\<close>, open (with what is still to arrive on it), or closed.\<close>

datatype 'a chan = NilChan | OpenChan 'a | ClosedChan

datatype panic = IndexOutOfRange | NilDereference | CloseOfNilChannel | CloseOfClosedChannel

datatype 'a outcome = Panic panic | Blocked | Return 'a

definition andThen :: "'a outcome \<Rightarrow> ('a \<Rightarrow> 'b outcome) \<Rightarrow> 'b outcome" where
  "andThen x f = (case x of Panic p \<Rightarrow> Panic p | Blocked \<Rightarrow> Blocked | Return a \<Rightarrow> f a)"

text \<open>
  The collaborators. \<open>archive_Connect env t url\<close> is the result of
  \<^verbatim>\<open>historyarchive.Connect(url, ...)\<close> at call number \<open>t\<close>: an error, or an archive whose
  \<^verbatim>\<open>GetRootHAS()\<close> gives an error or a root state with this \<^verbatim>\<open>CurrentLedger\<close>.

  Modelled from the spec: \<^verbatim>\<open>stellarCoreRunnerInterface\<close> and its implementation are not among
  the sources. By section 4.2 of the spec, \<^verbatim>\<open>run(from, to)\<close> fails or spawns the child, after
  which \<^verbatim>\<open>getMetaPipe()\<close> is the child's output or \<^verbatim>\<open>nil\<close>; \<^verbatim>\<open>close()\<close> terminates the child,
  releases the pipe, and may fail.
\<close>

record env =
  archive_Connect :: "nat \<Rightarrow> string \<Rightarrow> error + (error + u32)"
  runner_run :: "nat \<Rightarrow> u32 \<Rightarrow> u32 \<Rightarrow> error + pipe option"
  runner_close :: "nat \<Rightarrow> error option"

text \<open>
  The struct. \<open>stellarCoreRunner\<close> holds what the runner's \<^verbatim>\<open>getMetaPipe()\<close> returns;
  \<open>clock\<close> counts the collaborator calls made so far and is not a field of the Go struct.
\<close>

record captiveStellarCore =
  networkPassphrase :: string
  historyURLs :: "string list"
  lastLedger :: "u32 option"
  stop :: "unit chan"
  metaC :: "metaResult list chan"
  stellarCoreRunner :: "pipe option"
  cachedMeta :: "LedgerCloseMeta option"
  nextLedger :: u32
  clock :: nat

definition NewCaptive :: "string \<Rightarrow> string \<Rightarrow> string list \<Rightarrow> captiveStellarCore" where
  "NewCaptive executablePath passphrase urls =
     \<lparr> networkPassphrase = passphrase, historyURLs = urls, lastLedger = None,
       stop = NilChan, metaC = NilChan, stellarCoreRunner = None, cachedMeta = None,
       nextLedger = 0, clock = 0 \<rparr>"

definition IsInOfflineReplayMode :: "captiveStellarCore \<Rightarrow> bool" where
  "IsInOfflineReplayMode c = (lastLedger c \<noteq> None)"

definition IsInOnlineTrackingMode :: "captiveStellarCore \<Rightarrow> bool" where
  "IsInOnlineTrackingMode c = (lastLedger c = None)"

definition IsClosed :: "captiveStellarCore \<Rightarrow> bool" where
  "IsClosed c = (nextLedger c = 0)"

definition LedgerWithinCheckpoints :: "captiveStellarCore \<Rightarrow> u32 \<Rightarrow> u32 \<Rightarrow> bool" where
  "LedgerWithinCheckpoints c ledger numCheckpoints =
     (nextLedger c \<le> ledger \<and>
      ledger \<le> nextLedger c + numCheckpoints * ledgersPerCheckpoint)"

subsection \<open>The read-ahead goroutine\<close>

text \<open>
  \<^verbatim>\<open>readLedgerMetaFromPipe\<close>: the decoded record or an error, and the pipe after the read.
\<close>

definition readLedgerMetaFromPipe :: "pipe option \<Rightarrow> (error + LedgerCloseMeta) \<times> pipe option" where
  "readLedgerMetaFromPipe metaPipe =
     (case metaPipe of
        None \<Rightarrow> (Inl ''missing metadata pipe'', None)
      | Some [] \<Rightarrow> (Inl (errors_Wrap io_EOF ''got EOF from subprocess''), Some [])
      | Some (Garbled e0 # fs) \<Rightarrow>
          (Inl (errors_Wrap e0 ''unmarshalling framed LedgerCloseMeta''), Some fs)
      | Some (Frame xlcm # fs) \<Rightarrow> (Inr xlcm, Some fs))"

text \<open>
  \<^verbatim>\<open>sendLedgerMeta\<close>: everything the goroutine sends on \<^verbatim>\<open>metaC\<close> if it is never stopped.
  It returns after sending an error, and after sending a record whose sequence has
  reached \<open>untilSequence\<close>.
\<close>

function sendLedgerMeta :: "pipe option \<Rightarrow> u32 \<Rightarrow> metaResult list" where
  "sendLedgerMeta metaPipe untilSequence =
     (case readLedgerMetaFromPipe metaPipe of
        (Inl e, _) \<Rightarrow> [\<lparr> meta = None, err = Some e \<rparr>]
      | (Inr m, rest) \<Rightarrow>
          \<lparr> meta = Some m, err = None \<rparr> #
          (if LedgerSequence m \<ge> untilSequence then []
           else sendLedgerMeta rest untilSequence))"
  by pat_completeness auto
termination
  by (relation "measure (\<lambda>(p, u). case p of None \<Rightarrow> 0 | Some fs \<Rightarrow> length fs)")
     (auto simp: readLedgerMetaFromPipe_def split: option.splits list.splits frame.splits)

declare sendLedgerMeta.simps [simp del]

subsection \<open>The backend's methods\<close>

definition GetLatestLedgerSequence ::
  "env \<Rightarrow> captiveStellarCore \<Rightarrow> ((u32 \<times> error option) \<times> captiveStellarCore) outcome" where
  "GetLatestLedgerSequence env c =
     (case historyURLs c of
        [] \<Rightarrow> Panic IndexOutOfRange
      | url # _ \<Rightarrow>
          (let c' = c\<lparr> clock := Suc (clock c) \<rparr> in
           case archive_Connect env (clock c) url of
             Inl e \<Rightarrow> Return ((0, Some e), c')
           | Inr archive \<Rightarrow>
               (case archive of
                  Inl e \<Rightarrow> Return ((0, Some e), c')
                | Inr currentLedger \<Rightarrow> Return ((currentLedger, None), c'))))"

text \<open>
  The channel part of \<^verbatim>\<open>Close\<close>: \<^verbatim>\<open>close(c.stop)\<close>, the non-blocking drain of \<^verbatim>\<open>metaC\<close>, the
  wait for the goroutine, \<^verbatim>\<open>close(c.metaC)\<close>. Closing a closed or a nil channel panics.
\<close>

definition closeChannels :: "captiveStellarCore \<Rightarrow> panic + captiveStellarCore" where
  "closeChannels c =
     (case stop c of
        NilChan \<Rightarrow> Inr c
      | ClosedChan \<Rightarrow> Inl CloseOfClosedChannel
      | OpenChan _ \<Rightarrow>
          (case metaC c of
             NilChan \<Rightarrow> Inl CloseOfNilChannel
           | ClosedChan \<Rightarrow> Inl CloseOfClosedChannel
           | OpenChan _ \<Rightarrow> Inr (c\<lparr> stop := ClosedChan, metaC := ClosedChan \<rparr>)))"

definition Close ::
  "env \<Rightarrow> captiveStellarCore \<Rightarrow> (error option \<times> captiveStellarCore) outcome" where
  "Close env c =
     (if IsClosed c then Return (None, c)
      else
        case closeChannels (c\<lparr> nextLedger := 0 \<rparr>) of
          Inl p \<Rightarrow> Panic p
        | Inr c1 \<Rightarrow>
            (let c2 = c1\<lparr> lastLedger := None, stellarCoreRunner := None,
                         clock := Suc (clock c1) \<rparr> in
             case runner_close env (clock c1) of
               Some e \<Rightarrow> Return (Some (errors_Wrap e ''error closing stellar-core subprocess''), c2)
             | None \<Rightarrow> Return (None, c2)))"

definition openOfflineReplaySubprocess ::
  "env \<Rightarrow> captiveStellarCore \<Rightarrow> u32 \<Rightarrow> u32 \<Rightarrow> (error option \<times> captiveStellarCore) outcome" where
  "openOfflineReplaySubprocess env c nextL lastL =
     andThen (Close env c) (\<lambda>(_, c1).
     andThen (GetLatestLedgerSequence env c1) (\<lambda>((maxLedger, e), c2).
       case e of
         Some e' \<Rightarrow> Return (Some (errors_Wrap e' ''getting latest ledger sequence''), c2)
       | None \<Rightarrow>
           if nextL > maxLedger then
             Return (Some (sequenceGreaterThanMax nextL maxLedger), c2)
           else
             (let lastL' = (if lastL > maxLedger then maxLedger else lastL);
                  c3 = c2\<lparr> clock := Suc (clock c2) \<rparr> in
              case runner_run env (clock c2) nextL lastL' of
                Inl e' \<Rightarrow> Return (Some (errors_Wrap e' ''error running stellar-core''), c3)
              | Inr p \<Rightarrow>
                  Return (None,
                    c3\<lparr> stellarCoreRunner := p,
                        nextLedger := roundDownToFirstReplayAfterCheckpointStart nextL,
                        lastLedger := Some lastL',
                        metaC := OpenChan (sendLedgerMeta p lastL'),
                        stop := OpenChan () \<rparr>))))"

text \<open>
  The loop of \<^verbatim>\<open>GetLedger\<close> over the results received on \<^verbatim>\<open>metaC\<close>, with \<^verbatim>\<open>nextLedger\<close> as it
  advances. It gives how the loop is left, what is still to be received, and \<^verbatim>\<open>nextLedger\<close>.
  A receive when nothing more will be sent never returns (\<open>Starved\<close>); a result with neither
  a record nor an error makes \<^verbatim>\<open>LedgerSequence()\<close> dereference \<^verbatim>\<open>nil\<close>.
\<close>

datatype loopExit = Found LedgerCloseMeta | ErrOut error | Starved | Crashed panic

fun pullLoop :: "metaResult list \<Rightarrow> u32 \<Rightarrow> u32 \<Rightarrow> loopExit \<times> metaResult list \<times> u32" where
  "pullLoop [] nextL sequence = (Starved, [], nextL)"
| "pullLoop (r # rs) nextL sequence =
     (case err r of
        Some e \<Rightarrow> (ErrOut e, rs, nextL)
      | None \<Rightarrow>
          (case meta r of
             None \<Rightarrow> (Crashed NilDereference, rs, nextL)
           | Some m \<Rightarrow>
               if LedgerSequence m \<noteq> nextL then
                 (ErrOut (unexpectedLedger nextL (LedgerSequence m)), rs, nextL)
               else if LedgerSequence m = sequence then (Found m, rs, nextL + 1)
               else pullLoop rs (nextL + 1) sequence))"

text \<open>
  Lines 240 to 275 of \<^verbatim>\<open>GetLedger\<close>: the loop, then either the return of the record found
  (closing first when it is the last of the segment) or \<^verbatim>\<open>Close\<close> and the return of the error.
\<close>

definition GetLedger_pull ::
  "env \<Rightarrow> captiveStellarCore \<Rightarrow> u32 \<Rightarrow>
     ((bool \<times> LedgerCloseMeta \<times> error option) \<times> captiveStellarCore) outcome" where
  "GetLedger_pull env c sequence =
     (case metaC c of
        NilChan \<Rightarrow> Blocked
      | ClosedChan \<Rightarrow> Panic NilDereference
      | OpenChan rs \<Rightarrow>
          (case pullLoop rs (nextLedger c) sequence of
             (Starved, _, _) \<Rightarrow> Blocked
           | (Crashed p, _, _) \<Rightarrow> Panic p
           | (ErrOut errOut, rs', nextL) \<Rightarrow>
               andThen (Close env (c\<lparr> metaC := OpenChan rs', nextLedger := nextL \<rparr>))
                 (\<lambda>(_, c'). Return ((False, emptyLedgerCloseMeta, Some errOut), c'))
           | (Found m, rs', nextL) \<Rightarrow>
               (let c1 = c\<lparr> metaC := OpenChan rs', nextLedger := nextL,
                            cachedMeta := Some m \<rparr> in
                andThen (if lastLedger c1 = Some (LedgerSequence m)
                         then Close env c1 else Return (None, c1))
                  (\<lambda>(_, c2). Return ((True, m, None), c2)))))"

text \<open>The condition of the cached fast path at the head of \<^verbatim>\<open>GetLedger\<close>.\<close>

definition cacheHit :: "captiveStellarCore \<Rightarrow> u32 \<Rightarrow> bool" where
  "cacheHit c sequence =
     (cachedMeta c \<noteq> None \<and> sequence = LedgerSequence (the (cachedMeta c)))"

definition GetLedger ::
  "env \<Rightarrow> captiveStellarCore \<Rightarrow> u32 \<Rightarrow>
     ((bool \<times> LedgerCloseMeta \<times> error option) \<times> captiveStellarCore) outcome" where
  "GetLedger env c sequence =
     (if cacheHit c sequence then
        Return ((True, the (cachedMeta c), None), c)
      else
        andThen (if \<not> IsClosed c \<and> \<not> LedgerWithinCheckpoints c sequence numCheckpointsLeeway
                 then Close env c else Return (None, c)) (\<lambda>(_, c1).
        andThen (if IsClosed c1
                 then openOfflineReplaySubprocess env c1 sequence (sequence + ledgersPerProcess)
                 else Return (None, c1)) (\<lambda>(e, c2).
          case e of
            Some e' \<Rightarrow>
              Return ((False, emptyLedgerCloseMeta, Some (errors_Wrap e' ''opening subprocess'')), c2)
          | None \<Rightarrow>
              if \<not> LedgerWithinCheckpoints c2 sequence 1 then
                Return ((False, emptyLedgerCloseMeta,
                         Some ''unexpected subprocess next-ledger''), c2)
              else GetLedger_pull env c2 sequence)))"

definition PrepareRange ::
  "env \<Rightarrow> captiveStellarCore \<Rightarrow> u32 \<Rightarrow> u32 \<Rightarrow> (error option \<times> captiveStellarCore) outcome" where
  "PrepareRange env c from to =
     andThen (openOfflineReplaySubprocess env c (from - 1) to) (\<lambda>(e, c1).
       case e of
         Some e' \<Rightarrow> Return (Some (errors_Wrap e' ''opening subprocess''), c1)
       | None \<Rightarrow>
           if stellarCoreRunner c1 = None then Return (Some ''missing metadata pipe'', c1)
           else
             andThen (GetLedger env c1 (from - 1)) (\<lambda>((_, _, e2), c2).
               case e2 of
                 Some e' \<Rightarrow> Return (Some (errors_Wrap e' ''opening getting ledger `from-1`''), c2)
               | None \<Rightarrow> Return (None, c2)))"

subsection \<open>Observing outcomes\<close>

definition returned :: "('a \<times> 's) outcome \<Rightarrow> 'a option" where
  "returned x = (case x of Return (a, s) \<Rightarrow> Some a | _ \<Rightarrow> None)"

definition stateAfter :: "('a \<times> 's) outcome \<Rightarrow> 's option" where
  "stateAfter x = (case x of Return (a, s) \<Rightarrow> Some s | _ \<Rightarrow> None)"

text \<open>What the goroutine sends for a decoded record: \<^verbatim>\<open>metaResult{meta, nil}\<close>.\<close>

definition delivered :: "LedgerCloseMeta \<Rightarrow> metaResult" where
  "delivered m = \<lparr> meta = Some m, err = None \<rparr>"

text \<open>Records whose sequences are \<open>n\<close>, \<open>n + 1\<close>, \<open>n + 2\<close>, ... in this order.\<close>

fun contiguousFrom :: "u32 \<Rightarrow> LedgerCloseMeta list \<Rightarrow> bool" where
  "contiguousFrom n [] = True"
| "contiguousFrom n (m # ms) = (LedgerSequence m = n \<and> contiguousFrom (n + 1) ms)"

subsection \<open>A well-behaved environment, for concrete runs\<close>

text \<open>
  Modelled from the spec: the child-process contract of section 6. Started for
  \<open>(from, to)\<close>, the child writes the records of the sequences from the start of the
  checkpoint of \<open>from\<close> through \<open>to\<close>, in ascending order, and exits.
\<close>

definition replay :: "u32 \<Rightarrow> u32 \<Rightarrow> pipe" where
  "replay from to =
     map (\<lambda>n. Frame (LedgerCloseMetaV0 (of_nat n) 0))
       [unat (roundDownToFirstReplayAfterCheckpointStart from) ..< Suc (unat to)]"

text \<open>
  An archive whose latest ledger is \<open>current\<close>, a runner that always starts such a child,
  and whose \<^verbatim>\<open>close()\<close> succeeds.
\<close>

definition faithfulEnv :: "u32 \<Rightarrow> env" where
  "faithfulEnv current =
     \<lparr> archive_Connect = (\<lambda>t url. Inr (Inr current)),
       runner_run = (\<lambda>t from to. Inr (Some (replay from to))),
       runner_close = (\<lambda>t. None) \<rparr>"

definition freshBackend :: captiveStellarCore where
  "freshBackend =
     NewCaptive ''stellar-core'' ''Test SDF Network ; September 2015''
       [''http://history.stellar.org/prd/core-live/core_live_001'']"

text \<open>
  A backend open on a segment that ends at 200 and expecting ledger 122, to which the
  records 122, 123, 125 and 126 are still to arrive: 124 is missing.
\<close>

definition gappedBackend :: captiveStellarCore where
  "gappedBackend =
     freshBackend\<lparr> lastLedger := Some 200, stop := OpenChan (),
       metaC := OpenChan (map delivered
         [LedgerCloseMetaV0 122 0, LedgerCloseMetaV0 123 0,
          LedgerCloseMetaV0 125 0, LedgerCloseMetaV0 126 0]),
       stellarCoreRunner := Some [], nextLedger := 122, clock := 2 \<rparr>"



text \<open>
  With an archive whose latest ledger is 200: the backend after \<^verbatim>\<open>GetLedger(150)\<close> on a new
  backend.
\<close>

definition afterRead :: captiveStellarCore where
  "afterRead = the (stateAfter (GetLedger (faithfulEnv 200) freshBackend 150))"

text \<open>
  With an archive whose latest ledger is 100: the backend after \<^verbatim>\<open>PrepareRange(1, 50)\<close> on a
  new backend.
\<close>

definition afterProbe :: captiveStellarCore where
  "afterProbe = the (stateAfter (PrepareRange (faithfulEnv 100) freshBackend 1 50))"

text \<open>An environment like \<open>faithfulEnv\<close>, but whose runner has no pipe after \<^verbatim>\<open>run\<close>.\<close>

definition pipelessEnv :: "u32 \<Rightarrow> env" where
  "pipelessEnv current = (faithfulEnv current)\<lparr> runner_run := (\<lambda>t from to. Inr None) \<rparr>"

subsection \<open>Reachable backends\<close>

text \<open>
  The two channels are created together and closed together, and an open backend has them
  open.
\<close>

definition channelsPaired :: "captiveStellarCore \<Rightarrow> bool" where
  "channelsPaired c =
     (case metaC c of
        NilChan \<Rightarrow> stop c = NilChan \<and> IsClosed c
      | ClosedChan \<Rightarrow> stop c = ClosedChan \<and> IsClosed c
      | OpenChan _ \<Rightarrow> stop c = OpenChan ())"

text \<open>
  The backends that a consumer can come to hold: a new one, and the one left by any method
  that returns, whatever the collaborators answered.
\<close>

inductive reachable :: "captiveStellarCore \<Rightarrow> bool" where
  reachable_new: "reachable (NewCaptive executablePath passphrase urls)"
| reachable_GetLedger:
    "reachable c \<Longrightarrow> GetLedger env c sequence = Return (res, c') \<Longrightarrow> reachable c'"
| reachable_PrepareRange:
    "reachable c \<Longrightarrow> PrepareRange env c from to = Return (e, c') \<Longrightarrow> reachable c'"
| reachable_Close:
    "reachable c \<Longrightarrow> Close env c = Return (e, c') \<Longrightarrow> reachable c'"
| reachable_GetLatestLedgerSequence:
    "reachable c \<Longrightarrow> GetLatestLedgerSequence env c = Return (r, c') \<Longrightarrow> reachable c'"

section \<open>Properties\<close>

subsection \<open>Sequencing of outcomes\<close>

lemma andThen_Return [simp]: "andThen (Return a) f = f a"
  by (simp add: andThen_def)

lemma andThen_Panic [simp]: "andThen (Panic p) f = Panic p"
  by (simp add: andThen_def)

lemma andThen_Blocked [simp]: "andThen Blocked f = Blocked"
  by (simp add: andThen_def)

lemma andThen_eq_Return:
  "(andThen x f = Return b) = (\<exists>a. x = Return a \<and> f a = Return b)"
  by (cases x) simp_all

lemma andThen_eq_Blocked:
  "(andThen x f = Blocked) = (x = Blocked \<or> (\<exists>a. x = Return a \<and> f a = Blocked))"
  by (cases x) simp_all

lemma returned_Return [simp]: "returned (Return (a, s)) = Some a"
  by (simp add: returned_def)

lemma stateAfter_Return [simp]: "stateAfter (Return (a, s)) = Some s"
  by (simp add: stateAfter_def)

subsection \<open>Checkpoint alignment\<close>

lemma unat_ledgersPerCheckpoint: "unat ledgersPerCheckpoint = 64"
  by (simp add: ledgersPerCheckpoint_def)

lemma unat_floor_checkpoint:
  "unat ((s::u32) div ledgersPerCheckpoint * ledgersPerCheckpoint) = unat s div 64 * 64"
proof -
  have "unat s div 64 * 64 \<le> unat s"
    by simp
  moreover have "unat s < 2 ^ 32"
    using unsigned_less [of s] by simp
  ultimately have small: "unat s div 64 * 64 < 2 ^ 32"
    by linarith
  have quot: "unat (s div ledgersPerCheckpoint) = unat s div 64"
    by (simp add: unat_div unat_ledgersPerCheckpoint)
  have "unat (s div ledgersPerCheckpoint) * unat ledgersPerCheckpoint < 2 ^ LENGTH(32)"
    using small by (simp add: quot unat_ledgersPerCheckpoint)
  then have "unat (s div ledgersPerCheckpoint * ledgersPerCheckpoint) =
      unat (s div ledgersPerCheckpoint) * unat ledgersPerCheckpoint"
    by (simp only: unat_mult_lem)
  then show ?thesis
    by (simp add: quot unat_ledgersPerCheckpoint)
qed

lemma floor_checkpoint_le: "(s::u32) div ledgersPerCheckpoint * ledgersPerCheckpoint \<le> s"
  by (simp add: word_le_nat_alt unat_floor_checkpoint)

lemma floor_checkpoint_zero:
  "((s::u32) div ledgersPerCheckpoint * ledgersPerCheckpoint = 0) = (s < ledgersPerCheckpoint)"
proof -
  have "(s div ledgersPerCheckpoint * ledgersPerCheckpoint = 0) =
      (unat (s div ledgersPerCheckpoint * ledgersPerCheckpoint) = 0)"
    by (simp add: unat_eq_0)
  also have "\<dots> = (unat s < 64)"
    by (simp add: unat_floor_checkpoint div_eq_0_iff)
  also have "\<dots> = (s < ledgersPerCheckpoint)"
    by (simp add: word_less_nat_alt unat_ledgersPerCheckpoint)
  finally show ?thesis .
qed

lemma floor_checkpoint_nonzero:
  "ledgersPerCheckpoint \<le> s \<Longrightarrow> s div ledgersPerCheckpoint * ledgersPerCheckpoint \<noteq> 0"
  using floor_checkpoint_zero [of s] by auto

lemma roundDown_nonzero [simp]: "roundDownToFirstReplayAfterCheckpointStart s \<noteq> 0"
  by (simp add: roundDownToFirstReplayAfterCheckpointStart_def Let_def)

lemma roundDown_le:
  assumes "0 < s"
  shows "roundDownToFirstReplayAfterCheckpointStart s \<le> s"
proof (cases "s < ledgersPerCheckpoint")
  case True
  then have "roundDownToFirstReplayAfterCheckpointStart s = 1"
    by (simp add: roundDownToFirstReplayAfterCheckpointStart_def Let_def floor_checkpoint_zero)
  moreover have "1 \<le> s"
  proof -
    have "unat s \<noteq> 0"
      using assms by (simp add: unat_eq_0)
    then show ?thesis
      by (simp add: word_le_nat_alt)
  qed
  ultimately show ?thesis by simp
next
  case False
  then show ?thesis
    by (simp add: roundDownToFirstReplayAfterCheckpointStart_def Let_def floor_checkpoint_zero
        floor_checkpoint_le)
qed

text \<open>
  C4, as amended. \<open>checkpoint_align 1 = 1\<close>; from \<open>K = ledgersPerCheckpoint\<close> on,
  \<open>checkpoint_align s = floor (s / K) * K\<close>, also as natural numbers; below \<open>K\<close> it is 1
  (and not \<open>floor (s / K) * K\<close>, which is 0 there); and \<open>checkpoint_align s \<le> s\<close> for \<open>s > 0\<close>.
\<close>

theorem checkpoint_align_amended:
  "roundDownToFirstReplayAfterCheckpointStart 1 = 1 \<and>
   (ledgersPerCheckpoint \<le> s \<longrightarrow>
      roundDownToFirstReplayAfterCheckpointStart s =
        s div ledgersPerCheckpoint * ledgersPerCheckpoint \<and>
      unat (roundDownToFirstReplayAfterCheckpointStart s) =
        unat s div unat ledgersPerCheckpoint * unat ledgersPerCheckpoint) \<and>
   (s < ledgersPerCheckpoint \<longrightarrow> roundDownToFirstReplayAfterCheckpointStart s = 1) \<and>
   (0 < s \<longrightarrow> roundDownToFirstReplayAfterCheckpointStart s \<le> s)"
proof -
  have one: "roundDownToFirstReplayAfterCheckpointStart 1 = 1"
    by (simp add: roundDownToFirstReplayAfterCheckpointStart_def ledgersPerCheckpoint_def)
  have above: "roundDownToFirstReplayAfterCheckpointStart s =
      s div ledgersPerCheckpoint * ledgersPerCheckpoint" if "ledgersPerCheckpoint \<le> s"
    using floor_checkpoint_nonzero [OF that]
    by (simp add: roundDownToFirstReplayAfterCheckpointStart_def Let_def)
  have below: "roundDownToFirstReplayAfterCheckpointStart s = 1" if "s < ledgersPerCheckpoint"
    using that
    by (simp add: roundDownToFirstReplayAfterCheckpointStart_def Let_def floor_checkpoint_zero)
  have above_nat: "unat (roundDownToFirstReplayAfterCheckpointStart s) =
      unat s div unat ledgersPerCheckpoint * unat ledgersPerCheckpoint"
    if "ledgersPerCheckpoint \<le> s"
    using above [OF that] by (simp add: unat_floor_checkpoint unat_ledgersPerCheckpoint)
  show ?thesis
    using one above above_nat below roundDown_le [of s] by blast
qed

theorem checkpoint_align_amended_witness:
  "ledgersPerCheckpoint \<le> 100 \<and> roundDownToFirstReplayAfterCheckpointStart 100 = 64 \<and>
   unat (roundDownToFirstReplayAfterCheckpointStart 100) = 64 \<and>
   (0::u32) < 100 \<and> roundDownToFirstReplayAfterCheckpointStart 100 \<le> 100 \<and>
   (63::u32) < ledgersPerCheckpoint \<and> roundDownToFirstReplayAfterCheckpointStart 63 = 1"
  using checkpoint_align_amended [of 100] checkpoint_align_amended [of 63]
  by (simp add: ledgersPerCheckpoint_def)

text \<open>
  C4 as stated fails at \<open>s = 1\<close>, where \<open>floor (s / K) * K\<close> is 0 and the function gives 1.
\<close>

theorem checkpoint_align_floor_counterexample:
  "(0::u32) < 1 \<and>
   roundDownToFirstReplayAfterCheckpointStart 1 \<noteq>
     1 div ledgersPerCheckpoint * ledgersPerCheckpoint"
  by (simp add: roundDownToFirstReplayAfterCheckpointStart_def ledgersPerCheckpoint_def)

subsection \<open>Close and the archive query\<close>

lemma Close_closed: "IsClosed c \<Longrightarrow> Close env c = Return (None, c)"
  by (simp add: Close_def)

lemma Close_not_Blocked: "Close env c \<noteq> Blocked"
  by (simp add: Close_def Let_def split: sum.splits option.splits)

lemma closeChannels_fields:
  assumes "closeChannels c = Inr c'"
  shows "nextLedger c' = nextLedger c \<and> cachedMeta c' = cachedMeta c \<and>
         historyURLs c' = historyURLs c \<and> lastLedger c' = lastLedger c \<and>
         clock c' = clock c"
  using assms by (auto simp: closeChannels_def split: chan.splits)

lemma Close_Return:
  assumes "Close env c = Return (r, c')"
  shows "IsClosed c' \<and> cachedMeta c' = cachedMeta c \<and> historyURLs c' = historyURLs c"
proof (cases "IsClosed c")
  case True
  with assms show ?thesis
    by (simp add: Close_def)
next
  case False
  with assms obtain c1 where c1: "closeChannels (c\<lparr> nextLedger := 0 \<rparr>) = Inr c1"
    and c': "c' = c1\<lparr> lastLedger := None, stellarCoreRunner := None, clock := Suc (clock c1) \<rparr>"
    by (auto simp: Close_def Let_def split: sum.splits option.splits)
  from closeChannels_fields [OF c1] c' show ?thesis
    by (simp add: IsClosed_def)
qed

lemma Close_Return_open:
  assumes "Close env c = Return (r, c')" and "\<not> IsClosed c"
  shows "lastLedger c' = None"
proof -
  from assms obtain c1 where
    "c' = c1\<lparr> lastLedger := None, stellarCoreRunner := None, clock := Suc (clock c1) \<rparr>"
    by (auto simp: Close_def Let_def split: sum.splits option.splits)
  then show ?thesis by simp
qed

text \<open>\<^verbatim>\<open>Close\<close> returns when the channels are as \<^verbatim>\<open>openOfflineReplaySubprocess\<close> leaves them.\<close>

lemma Close_returns:
  assumes "stop c \<noteq> ClosedChan" and "metaC c = OpenChan rs"
  shows "\<exists>r c'. Close env c = Return (r, c')"
  using assms
  by (cases "stop c")
     (auto simp: Close_def closeChannels_def Let_def split: option.splits)

lemma GetLatestLedgerSequence_Return:
  assumes "GetLatestLedgerSequence env c = Return ((m, e), c')"
  shows "c' = c\<lparr> clock := Suc (clock c) \<rparr>"
  using assms
  by (auto simp: GetLatestLedgerSequence_def Let_def split: list.splits sum.splits)

lemma GetLatestLedgerSequence_not_Blocked: "GetLatestLedgerSequence env c \<noteq> Blocked"
  by (simp add: GetLatestLedgerSequence_def Let_def split: list.splits sum.splits)

lemma GetLatestLedgerSequence_empty:
  "historyURLs c = [] \<Longrightarrow> GetLatestLedgerSequence env c = Panic IndexOutOfRange"
  by (simp add: GetLatestLedgerSequence_def)

lemma GetLatestLedgerSequence_nonempty:
  "historyURLs c \<noteq> [] \<Longrightarrow> \<exists>r c'. GetLatestLedgerSequence env c = Return (r, c')"
  by (cases "historyURLs c")
     (auto simp: GetLatestLedgerSequence_def Let_def split: sum.splits)


lemma GetLatestLedgerSequence_fresh:
  "GetLatestLedgerSequence (faithfulEnv current) freshBackend =
     Return ((current, None), freshBackend\<lparr> clock := 1 \<rparr>)"
  by (simp add: GetLatestLedgerSequence_def freshBackend_def NewCaptive_def faithfulEnv_def)

lemma openOfflineReplaySubprocess_empty:
  assumes "historyURLs c = []"
  shows "\<exists>p. openOfflineReplaySubprocess env c nextL lastL = Panic p"
proof (cases "Close env c")
  case (Panic p)
  then show ?thesis
    by (simp add: openOfflineReplaySubprocess_def)
next
  case Blocked
  then show ?thesis
    by (simp add: Close_not_Blocked)
next
  case (Return a)
  obtain r c1 where a: "a = (r, c1)"
    by (cases a)
  from Close_Return [of env c r c1] Return a assms have "historyURLs c1 = []"
    by simp
  then show ?thesis
    using Return a
    by (simp add: openOfflineReplaySubprocess_def GetLatestLedgerSequence_empty)
qed

lemma openOfflineReplaySubprocess_closed_empty:
  assumes "historyURLs c = []" and "IsClosed c"
  shows "openOfflineReplaySubprocess env c nextL lastL = Panic IndexOutOfRange"
  using assms
  by (simp add: openOfflineReplaySubprocess_def Close_closed GetLatestLedgerSequence_empty)

text \<open>
  C10. \<^verbatim>\<open>GetLatestLedgerSequence\<close> reads \<^verbatim>\<open>historyURLs[0]\<close> unchecked: it panics, with an index
  out of range, exactly when \<^verbatim>\<open>historyURLs\<close> is empty, and otherwise returns. A backend
  constructed with no URL is closed with an empty cache; in that state \<^verbatim>\<open>Close\<close> changes
  nothing, and every \<^verbatim>\<open>GetLatestLedgerSequence\<close>, \<^verbatim>\<open>PrepareRange\<close> and \<^verbatim>\<open>GetLedger\<close> panics
  with an index out of range, so the backend never leaves that state.
\<close>

theorem history_urls_unchecked:
  "((\<exists>p. GetLatestLedgerSequence env c = Panic p) = (historyURLs c = [])) \<and>
   ((GetLatestLedgerSequence env c = Panic IndexOutOfRange) = (historyURLs c = [])) \<and>
   ((\<exists>r c'. GetLatestLedgerSequence env c = Return (r, c')) = (historyURLs c \<noteq> [])) \<and>
   (let c0 = NewCaptive executablePath passphrase [] in
      historyURLs c0 = [] \<and> IsClosed c0 \<and> cachedMeta c0 = None) \<and>
   (historyURLs c = [] \<and> IsClosed c \<and> cachedMeta c = None \<longrightarrow>
      Close env c = Return (None, c) \<and>
      GetLatestLedgerSequence env c = Panic IndexOutOfRange \<and>
      PrepareRange env c from to = Panic IndexOutOfRange \<and>
      GetLedger env c sequence = Panic IndexOutOfRange)"
proof -
  have abr: "((\<exists>p. GetLatestLedgerSequence env c = Panic p) = (historyURLs c = [])) \<and>
      ((GetLatestLedgerSequence env c = Panic IndexOutOfRange) = (historyURLs c = [])) \<and>
      ((\<exists>r c'. GetLatestLedgerSequence env c = Return (r, c')) = (historyURLs c \<noteq> []))"
  proof (cases "historyURLs c = []")
    case True
    then show ?thesis
      by (simp add: GetLatestLedgerSequence_empty)
  next
    case False
    from GetLatestLedgerSequence_nonempty [OF False, of env]
    obtain r c' where "GetLatestLedgerSequence env c = Return (r, c')"
      by blast
    with False show ?thesis
      by simp
  qed
  have n: "let c0 = NewCaptive executablePath passphrase [] in
      historyURLs c0 = [] \<and> IsClosed c0 \<and> cachedMeta c0 = None"
    by (simp add: NewCaptive_def IsClosed_def)
  have d: "Close env c = Return (None, c) \<and>
      GetLatestLedgerSequence env c = Panic IndexOutOfRange \<and>
      PrepareRange env c from to = Panic IndexOutOfRange \<and>
      GetLedger env c sequence = Panic IndexOutOfRange"
    if h: "historyURLs c = [] \<and> IsClosed c \<and> cachedMeta c = None"
  proof -
    from h have "PrepareRange env c from to = Panic IndexOutOfRange"
      by (simp add: PrepareRange_def openOfflineReplaySubprocess_closed_empty)
    moreover from h have "GetLedger env c sequence = Panic IndexOutOfRange"
      by (simp add: GetLedger_def cacheHit_def openOfflineReplaySubprocess_closed_empty)
    ultimately show ?thesis
      using h by (simp add: Close_closed GetLatestLedgerSequence_empty)
  qed
  from abr n d show ?thesis
    by blast
qed

theorem history_urls_unchecked_witness:
  "historyURLs (NewCaptive ''stellar-core'' ''Public Global Stellar Network'' []) = [] \<and>
   Close (faithfulEnv 100) (NewCaptive ''stellar-core'' ''Public Global Stellar Network'' []) =
     Return (None, NewCaptive ''stellar-core'' ''Public Global Stellar Network'' []) \<and>
   GetLatestLedgerSequence (faithfulEnv 100)
     (NewCaptive ''stellar-core'' ''Public Global Stellar Network'' []) = Panic IndexOutOfRange \<and>
   PrepareRange (faithfulEnv 100)
     (NewCaptive ''stellar-core'' ''Public Global Stellar Network'' []) 2 50 = Panic IndexOutOfRange \<and>
   GetLedger (faithfulEnv 100)
     (NewCaptive ''stellar-core'' ''Public Global Stellar Network'' []) 2 = Panic IndexOutOfRange \<and>
   historyURLs freshBackend \<noteq> [] \<and>
   returned (GetLatestLedgerSequence (faithfulEnv 100) freshBackend) = Some (100, None)"
proof -
  let ?c = "NewCaptive ''stellar-core'' ''Public Global Stellar Network'' []"
  have h: "historyURLs ?c = [] \<and> IsClosed ?c \<and> cachedMeta ?c = None"
    by (simp add: NewCaptive_def IsClosed_def)
  have "returned (GetLatestLedgerSequence (faithfulEnv 100) freshBackend) = Some (100, None)"
    by (simp add: GetLatestLedgerSequence_def freshBackend_def NewCaptive_def faithfulEnv_def)
  moreover have "historyURLs freshBackend \<noteq> []"
    by (simp add: freshBackend_def NewCaptive_def)
  ultimately show ?thesis
    using h history_urls_unchecked [of "faithfulEnv 100" ?c "''stellar-core''"
        "''Public Global Stellar Network''" 2 50 2]
    by simp
qed

subsection \<open>Opening a subprocess\<close>

text \<open>
  What \<^verbatim>\<open>openOfflineReplaySubprocess\<close> does once \<^verbatim>\<open>Close\<close> has returned and the archive has
  answered with its latest ledger.
\<close>

lemma openOfflineReplaySubprocess_beyond_max:
  assumes "Close env c = Return (r, c1)"
    and "GetLatestLedgerSequence env c1 = Return ((maxLedger, None), c2)"
    and "nextL > maxLedger"
  shows "openOfflineReplaySubprocess env c nextL lastL =
           Return (Some (sequenceGreaterThanMax nextL maxLedger), c2) \<and> IsClosed c2"
proof -
  from Close_Return [OF assms(1)] have "IsClosed c1"
    by simp
  with GetLatestLedgerSequence_Return [OF assms(2)] have "IsClosed c2"
    by (simp add: IsClosed_def)
  then show ?thesis
    using assms by (simp add: openOfflineReplaySubprocess_def)
qed

lemma openOfflineReplaySubprocess_started:
  assumes "Close env c = Return (r, c1)"
    and "GetLatestLedgerSequence env c1 = Return ((maxLedger, None), c2)"
    and "nextL \<le> maxLedger"
    and "runner_run env (clock c2) nextL (min lastL maxLedger) = Inr p"
  shows "openOfflineReplaySubprocess env c nextL lastL =
           Return (None,
             c2\<lparr> clock := Suc (clock c2),
                 stellarCoreRunner := p,
                 nextLedger := roundDownToFirstReplayAfterCheckpointStart nextL,
                 lastLedger := Some (min lastL maxLedger),
                 metaC := OpenChan (sendLedgerMeta p (min lastL maxLedger)),
                 stop := OpenChan () \<rparr>)"
proof -
  have m: "(if lastL > maxLedger then maxLedger else lastL) = min lastL maxLedger"
    by (auto simp: min_def)
  from assms(3) have "\<not> nextL > maxLedger"
    by (simp add: not_less)
  then show ?thesis
    using assms(1,2,4)
    by (simp add: openOfflineReplaySubprocess_def Let_def m)
qed

lemma openOfflineReplaySubprocess_not_Blocked:
  "openOfflineReplaySubprocess env c nextL lastL \<noteq> Blocked"
  by (auto simp: openOfflineReplaySubprocess_def andThen_eq_Blocked Close_not_Blocked
      GetLatestLedgerSequence_not_Blocked Let_def split: option.splits sum.splits)

lemma openOfflineReplaySubprocess_Return:
  assumes "openOfflineReplaySubprocess env c nextL lastL = Return (e, c')"
  shows "cachedMeta c' = cachedMeta c \<and>
         (e \<noteq> None \<longrightarrow> IsClosed c') \<and>
         (e = None \<longrightarrow>
            nextLedger c' = roundDownToFirstReplayAfterCheckpointStart nextL \<and>
            (\<exists>rs. metaC c' = OpenChan rs) \<and> stop c' = OpenChan () \<and>
            (\<exists>maxLedger. nextL \<le> maxLedger \<and> lastLedger c' = Some (min lastL maxLedger)))"
proof -
  from assms obtain r c1 where cl: "Close env c = Return (r, c1)"
    by (auto simp: openOfflineReplaySubprocess_def andThen_eq_Return)
  with assms obtain maxLedger e1 c2 where
    gl: "GetLatestLedgerSequence env c1 = Return ((maxLedger, e1), c2)"
    by (auto simp: openOfflineReplaySubprocess_def andThen_eq_Return)
  from Close_Return [OF cl] have c1: "IsClosed c1" "cachedMeta c1 = cachedMeta c"
    by simp_all
  from GetLatestLedgerSequence_Return [OF gl] c1
  have c2: "IsClosed c2" "cachedMeta c2 = cachedMeta c"
    by (simp_all add: IsClosed_def)
  have m: "(if lastL > maxLedger then maxLedger else lastL) = min lastL maxLedger"
    by (auto simp: min_def)
  show ?thesis
  proof (cases e1)
    case (Some x)
    with assms cl gl c2 show ?thesis
      by (auto simp: openOfflineReplaySubprocess_def)
  next
    case None
    show ?thesis
    proof (cases "nextL > maxLedger")
      case True
      with assms cl gl c2 None show ?thesis
        by (auto simp: openOfflineReplaySubprocess_def)
    next
      case False
      then have le: "nextL \<le> maxLedger"
        by (simp add: not_less)
      show ?thesis
      proof (cases "runner_run env (clock c2) nextL (min lastL maxLedger)")
        case (Inl x)
        with assms cl gl c2 None False show ?thesis
          by (auto simp: openOfflineReplaySubprocess_def Let_def m IsClosed_def)
      next
        case (Inr p)
        from gl None have "GetLatestLedgerSequence env c1 = Return ((maxLedger, None), c2)"
          by simp
        from openOfflineReplaySubprocess_started [OF cl this le Inr] assms
        have "e = None" and
          "c' = c2\<lparr> clock := Suc (clock c2),
                 stellarCoreRunner := p,
                 nextLedger := roundDownToFirstReplayAfterCheckpointStart nextL,
                 lastLedger := Some (min lastL maxLedger),
                 metaC := OpenChan (sendLedgerMeta p (min lastL maxLedger)),
                 stop := OpenChan () \<rparr>"
          by simp_all
        with c2 le show ?thesis
          by auto
      qed
    qed
  qed
qed

text \<open>
  C9. \<^verbatim>\<open>PrepareRange(0, to)\<close> asks for the subprocess to start at \<open>0 - 1\<close>, which in 32 bits is
  4294967295. Whenever the archive's latest ledger is below that, the call returns the error
  ``opening subprocess: sequence 4294967295 greater than max available \<dots>'', and the backend
  is closed.
\<close>

theorem PrepareRange_zero_wraps:
  assumes "Close env c = Return (r, c1)"
    and "GetLatestLedgerSequence env c1 = Return ((maxLedger, None), c2)"
    and "maxLedger < 4294967295"
  shows "(0::u32) - 1 = 4294967295 \<and>
         PrepareRange env c 0 to =
           Return (Some (''opening subprocess: sequence 4294967295 greater than max available ''
                         @ decimal (unat maxLedger)), c2) \<and>
         IsClosed c2"
proof -
  have w: "(0::u32) - 1 = 4294967295"
    by simp
  have d: "decimal (unat (4294967295::u32)) = ''4294967295''"
    by (simp add: decimal.simps)
  from assms(3) have "(4294967295::u32) > maxLedger"
    by simp
  from openOfflineReplaySubprocess_beyond_max [OF assms(1,2) this, of to]
  have o: "openOfflineReplaySubprocess env c 4294967295 to =
          Return (Some (sequenceGreaterThanMax 4294967295 maxLedger), c2)" and cl: "IsClosed c2"
    by simp_all
  have "PrepareRange env c 0 to =
      andThen (openOfflineReplaySubprocess env c 4294967295 to) (\<lambda>(e, c1).
       case e of
         Some e' \<Rightarrow> Return (Some (errors_Wrap e' ''opening subprocess''), c1)
       | None \<Rightarrow>
           if stellarCoreRunner c1 = None then Return (Some ''missing metadata pipe'', c1)
           else
             andThen (GetLedger env c1 4294967295) (\<lambda>((_, _, e2), c2).
               case e2 of
                 Some e' \<Rightarrow> Return (Some (errors_Wrap e' ''opening getting ledger `from-1`''), c2)
               | None \<Rightarrow> Return (None, c2)))"
    unfolding PrepareRange_def w ..
  also have "\<dots> = Return (Some (errors_Wrap (sequenceGreaterThanMax 4294967295 maxLedger)
      ''opening subprocess''), c2)"
    by (simp add: o)
  also have "errors_Wrap (sequenceGreaterThanMax 4294967295 maxLedger) ''opening subprocess'' =
      ''opening subprocess: sequence 4294967295 greater than max available '' @
        decimal (unat maxLedger)"
    unfolding sequenceGreaterThanMax_def errors_Wrap_def d by simp
  finally show ?thesis
    using w cl by simp
qed

theorem PrepareRange_zero_wraps_witness:
  "Close (faithfulEnv 1000) freshBackend = Return (None, freshBackend) \<and>
   GetLatestLedgerSequence (faithfulEnv 1000) freshBackend =
     Return ((1000, None), freshBackend\<lparr> clock := 1 \<rparr>) \<and>
   (1000::u32) < 4294967295 \<and>
   PrepareRange (faithfulEnv 1000) freshBackend 0 5000 =
     Return (Some ''opening subprocess: sequence 4294967295 greater than max available 1000'',
             freshBackend\<lparr> clock := 1 \<rparr>) \<and>
   IsClosed (freshBackend\<lparr> clock := 1 \<rparr>)"
proof -
  have c: "Close (faithfulEnv 1000) freshBackend = Return (None, freshBackend)"
    by (simp add: Close_def IsClosed_def freshBackend_def NewCaptive_def)
  have g: "GetLatestLedgerSequence (faithfulEnv 1000) freshBackend =
      Return ((1000, None), freshBackend\<lparr> clock := 1 \<rparr>)"
    by (simp add: GetLatestLedgerSequence_def freshBackend_def NewCaptive_def faithfulEnv_def)
  have m: "(1000::u32) < 4294967295"
    by simp
  have d: "decimal (unat (1000::u32)) = ''1000''"
    by (simp add: decimal.simps)
  have "PrepareRange (faithfulEnv 1000) freshBackend 0 5000 =
      Return (Some (''opening subprocess: sequence 4294967295 greater than max available '' @
                    decimal (unat (1000::u32))), freshBackend\<lparr> clock := 1 \<rparr>)"
    and "IsClosed (freshBackend\<lparr> clock := 1 \<rparr>)"
    using PrepareRange_zero_wraps [OF c g m, of 5000] by blast+
  then show ?thesis
    unfolding d using c g m by simp
qed

subsection \<open>The pull loop\<close>

lemma contiguousFrom_append:
  "contiguousFrom n (xs @ ys) =
     (contiguousFrom n xs \<and> contiguousFrom (n + of_nat (length xs)) ys)"
  by (induction xs arbitrary: n) (simp_all add: ac_simps)

lemma contiguousFrom_nth:
  "contiguousFrom n ms \<Longrightarrow> i < length ms \<Longrightarrow> LedgerSequence (ms ! i) = n + of_nat i"
proof (induction ms arbitrary: n i)
  case Nil
  then show ?case by simp
next
  case (Cons m ms)
  show ?case
  proof (cases i)
    case 0
    with Cons.prems show ?thesis by simp
  next
    case (Suc j)
    with Cons.prems Cons.IH [of "n + 1" j] show ?thesis
      by (simp add: ac_simps)
  qed
qed

text \<open>
  Leaving the loop with a record: the results received were records of consecutive
  sequences starting at \<^verbatim>\<open>nextLedger\<close>, the last of them the requested one.
\<close>

lemma pullLoop_Found:
  assumes "pullLoop rs nextL sequence = (Found m, rs', nextL')"
  shows "\<exists>ms. rs = map delivered (ms @ [m]) @ rs' \<and>
              contiguousFrom nextL (ms @ [m]) \<and>
              (\<forall>x \<in> set ms. LedgerSequence x \<noteq> sequence) \<and>
              LedgerSequence m = sequence \<and>
              nextL' = nextL + of_nat (length ms) + 1"
  using assms
proof (induction rs arbitrary: nextL)
  case Nil
  then show ?case by simp
next
  case (Cons r rs)
  from Cons.prems obtain x where x: "err r = None" "meta r = Some x" "LedgerSequence x = nextL"
    by (auto split: option.splits if_splits)
  then have r: "r = delivered x"
    by (simp add: delivered_def)
  show ?case
  proof (cases "LedgerSequence x = sequence")
    case True
    with Cons.prems x have "m = x" "rs' = rs" "nextL' = nextL + 1"
      by simp_all
    with True x r have "r # rs = map delivered ([] @ [m]) @ rs' \<and>
        contiguousFrom nextL ([] @ [m]) \<and>
        (\<forall>x \<in> set []. LedgerSequence x \<noteq> sequence) \<and>
        LedgerSequence m = sequence \<and> nextL' = nextL + of_nat (length ([]::LedgerCloseMeta list)) + 1"
      by simp
    then show ?thesis by blast
  next
    case False
    with Cons.prems x have "pullLoop rs (nextL + 1) sequence = (Found m, rs', nextL')"
      by simp
    from Cons.IH [OF this] obtain ms where ms:
      "rs = map delivered (ms @ [m]) @ rs'"
      "contiguousFrom (nextL + 1) (ms @ [m])"
      "\<forall>x \<in> set ms. LedgerSequence x \<noteq> sequence"
      "LedgerSequence m = sequence"
      "nextL' = nextL + 1 + of_nat (length ms) + 1"
      by blast
    with False x r have "r # rs = map delivered ((x # ms) @ [m]) @ rs' \<and>
        contiguousFrom nextL ((x # ms) @ [m]) \<and>
        (\<forall>x \<in> set (x # ms). LedgerSequence x \<noteq> sequence) \<and>
        LedgerSequence m = sequence \<and> nextL' = nextL + of_nat (length (x # ms)) + 1"
      by (simp add: ac_simps)
    then show ?thesis by blast
  qed
qed

text \<open>Running the loop over records that are accepted and are not the requested one.\<close>

lemma pullLoop_skip:
  assumes "contiguousFrom nextL ms" and "\<forall>x \<in> set ms. LedgerSequence x \<noteq> sequence"
  shows "pullLoop (map delivered ms @ rest) nextL sequence =
           pullLoop rest (nextL + of_nat (length ms)) sequence"
  using assms
proof (induction ms arbitrary: nextL)
  case Nil
  then show ?case by simp
next
  case (Cons m ms)
  then show ?case
    by (simp add: delivered_def ac_simps)
qed

lemma pullLoop_mismatch:
  assumes "contiguousFrom nextL ms" and "\<forall>x \<in> set ms. LedgerSequence x \<noteq> sequence"
    and "LedgerSequence m \<noteq> nextL + of_nat (length ms)"
  shows "pullLoop (map delivered ms @ delivered m # rest) nextL sequence =
           (ErrOut (unexpectedLedger (nextL + of_nat (length ms)) (LedgerSequence m)), rest,
            nextL + of_nat (length ms))"
  using assms by (simp add: pullLoop_skip) (simp add: delivered_def)

lemma pullLoop_hit:
  assumes "contiguousFrom nextL (ms @ [m])" and "\<forall>x \<in> set ms. LedgerSequence x \<noteq> sequence"
    and "LedgerSequence m = sequence"
  shows "pullLoop (map delivered (ms @ [m]) @ rest) nextL sequence =
           (Found m, rest, nextL + of_nat (length ms) + 1)"
  using assms by (simp add: pullLoop_skip contiguousFrom_append) (simp add: delivered_def)

lemma GetLedger_pull_found:
  assumes "GetLedger_pull env c sequence = Return ((True, m, None), c')"
  shows "\<exists>rs rs' nextL'.
           metaC c = OpenChan rs \<and>
           pullLoop rs (nextLedger c) sequence = (Found m, rs', nextL') \<and>
           (if lastLedger c = Some (LedgerSequence m)
            then \<exists>r. Close env (c\<lparr> metaC := OpenChan rs', nextLedger := nextL',
                                    cachedMeta := Some m \<rparr>) = Return (r, c')
            else c' = c\<lparr> metaC := OpenChan rs', nextLedger := nextL', cachedMeta := Some m \<rparr>)"
proof -
  from assms obtain rs where rs: "metaC c = OpenChan rs"
    by (auto simp: GetLedger_pull_def split: chan.splits)
  obtain ex rs' nextL' where p: "pullLoop rs (nextLedger c) sequence = (ex, rs', nextL')"
    by (cases "pullLoop rs (nextLedger c) sequence") auto
  from assms rs p have ex: "ex = Found m"
    by (cases ex) (auto simp: GetLedger_pull_def andThen_eq_Return Let_def split: if_splits)
  show ?thesis
  proof (cases "lastLedger c = Some (LedgerSequence m)")
    case True
    with assms rs p ex show ?thesis
      by (auto simp: GetLedger_pull_def andThen_eq_Return Let_def)
  next
    case False
    with assms rs p ex show ?thesis
      by (simp add: GetLedger_pull_def Let_def)
  qed
qed

lemma GetLedger_pull_mismatch:
  assumes "metaC c = OpenChan (map delivered ms @ delivered x # rest)"
    and "stop c \<noteq> ClosedChan"
    and "contiguousFrom (nextLedger c) ms"
    and "\<forall>y \<in> set ms. LedgerSequence y \<noteq> sequence"
    and "LedgerSequence x \<noteq> nextLedger c + of_nat (length ms)"
  shows "\<exists>c'. GetLedger_pull env c sequence =
           Return ((False, emptyLedgerCloseMeta,
                    Some (unexpectedLedger (nextLedger c + of_nat (length ms))
                            (LedgerSequence x))), c') \<and>
              IsClosed c'"
proof -
  let ?c1 = "c\<lparr> metaC := OpenChan rest, nextLedger := nextLedger c + of_nat (length ms) \<rparr>"
  have "stop ?c1 \<noteq> ClosedChan" and "metaC ?c1 = OpenChan rest"
    using assms(2) by simp_all
  from Close_returns [OF this, of env] obtain r c' where cl: "Close env ?c1 = Return (r, c')"
    by blast
  from Close_Return [OF cl] have "IsClosed c'"
    by simp
  moreover have "GetLedger_pull env c sequence =
      Return ((False, emptyLedgerCloseMeta,
               Some (unexpectedLedger (nextLedger c + of_nat (length ms)) (LedgerSequence x))), c')"
    using assms(1) pullLoop_mismatch [OF assms(3,4,5), of rest] cl
    by (simp add: GetLedger_pull_def)
  ultimately show ?thesis
    by blast
qed

lemma GetLedger_pull_hit:
  assumes "metaC c = OpenChan (map delivered (ms @ [x]) @ rest)"
    and "contiguousFrom (nextLedger c) (ms @ [x])"
    and "\<forall>y \<in> set ms. LedgerSequence y \<noteq> sequence"
    and "LedgerSequence x = sequence"
    and "lastLedger c \<noteq> Some sequence"
  shows "GetLedger_pull env c sequence =
           Return ((True, x, None),
             c\<lparr> metaC := OpenChan rest,
                nextLedger := nextLedger c + of_nat (length ms) + 1,
                cachedMeta := Some x \<rparr>)"
  using assms(1,4,5) pullLoop_hit [OF assms(2,3,4), of rest]
  by (simp add: GetLedger_pull_def Let_def)

text \<open>
  C1. In the pull loop of \<^verbatim>\<open>GetLedger\<close>:
  \<^item> if the call returns a record \<open>m\<close>, then what it received from the channel were
    records of the consecutive sequences \<open>nextLedger\<close>, \<open>nextLedger + 1\<close>, \<dots>, the last of them
    \<open>m\<close>, whose sequence is the requested one and the value of \<open>nextLedger\<close> when it was
    received; afterwards the backend is closed (when \<open>m\<close> is the last of the segment) or
    \<open>nextLedger\<close> has advanced by one for each record received;
  \<^item> conversely such a run of records is consumed in this way;
  \<^item> if, after records so accepted, a record arrives whose sequence is not \<open>nextLedger\<close>,
    the call returns \<open>found = false\<close> with the error
    ``unexpected ledger (expected=A actual=B)'', \<open>A\<close> being \<open>nextLedger\<close> and \<open>B\<close> the
    record's sequence, and the backend is closed.
\<close>

theorem pull_loop_gate:
  "(GetLedger_pull env c sequence = Return ((True, m, None), c') \<longrightarrow>
      (\<exists>ms rest.
         metaC c = OpenChan (map delivered (ms @ [m]) @ rest) \<and>
         contiguousFrom (nextLedger c) (ms @ [m]) \<and>
         LedgerSequence m = nextLedger c + of_nat (length ms) \<and>
         LedgerSequence m = sequence \<and>
         (if lastLedger c = Some sequence then IsClosed c'
          else nextLedger c' = nextLedger c + of_nat (length ms) + 1 \<and>
               metaC c' = OpenChan rest))) \<and>
   (metaC c = OpenChan (map delivered (ms @ [x]) @ rest) \<and>
    contiguousFrom (nextLedger c) (ms @ [x]) \<and>
    (\<forall>y \<in> set ms. LedgerSequence y \<noteq> sequence) \<and>
    LedgerSequence x = sequence \<and> lastLedger c \<noteq> Some sequence \<longrightarrow>
      GetLedger_pull env c sequence =
        Return ((True, x, None),
          c\<lparr> metaC := OpenChan rest,
             nextLedger := nextLedger c + of_nat (length ms) + 1,
             cachedMeta := Some x \<rparr>)) \<and>
   (metaC c = OpenChan (map delivered ms @ delivered x # rest) \<and>
    stop c \<noteq> ClosedChan \<and>
    contiguousFrom (nextLedger c) ms \<and>
    (\<forall>y \<in> set ms. LedgerSequence y \<noteq> sequence) \<and>
    LedgerSequence x \<noteq> nextLedger c + of_nat (length ms) \<longrightarrow>
      (\<exists>c''. GetLedger_pull env c sequence =
         Return ((False, emptyLedgerCloseMeta,
                  Some (''unexpected ledger (expected='' @
                        decimal (unat (nextLedger c + of_nat (length ms))) @
                        '' actual='' @ decimal (unat (LedgerSequence x)) @ '')'')), c'') \<and>
         IsClosed c''))"
proof (intro conjI impI)
  assume a: "GetLedger_pull env c sequence = Return ((True, m, None), c')"
  from GetLedger_pull_found [OF a] obtain rs rs' nextL' where
    rs: "metaC c = OpenChan rs" and
    p: "pullLoop rs (nextLedger c) sequence = (Found m, rs', nextL')" and
    fin: "if lastLedger c = Some (LedgerSequence m)
          then \<exists>r. Close env (c\<lparr> metaC := OpenChan rs', nextLedger := nextL',
                                  cachedMeta := Some m \<rparr>) = Return (r, c')
          else c' = c\<lparr> metaC := OpenChan rs', nextLedger := nextL', cachedMeta := Some m \<rparr>"
    by blast
  from pullLoop_Found [OF p] obtain ms where ms:
    "rs = map delivered (ms @ [m]) @ rs'"
    "contiguousFrom (nextLedger c) (ms @ [m])"
    "LedgerSequence m = sequence"
    "nextL' = nextLedger c + of_nat (length ms) + 1"
    by blast
  from ms(2) have at: "LedgerSequence m = nextLedger c + of_nat (length ms)"
    by (simp add: contiguousFrom_append)
  have "if lastLedger c = Some sequence then IsClosed c'
        else nextLedger c' = nextLedger c + of_nat (length ms) + 1 \<and> metaC c' = OpenChan rs'"
  proof (cases "lastLedger c = Some sequence")
    case True
    with fin ms(3) obtain r where
      "Close env (c\<lparr> metaC := OpenChan rs', nextLedger := nextL', cachedMeta := Some m \<rparr>) =
         Return (r, c')"
      by auto
    from Close_Return [OF this] True show ?thesis
      by simp
  next
    case False
    with fin ms(3,4) show ?thesis
      by simp
  qed
  with rs ms at show "\<exists>ms rest.
         metaC c = OpenChan (map delivered (ms @ [m]) @ rest) \<and>
         contiguousFrom (nextLedger c) (ms @ [m]) \<and>
         LedgerSequence m = nextLedger c + of_nat (length ms) \<and>
         LedgerSequence m = sequence \<and>
         (if lastLedger c = Some sequence then IsClosed c'
          else nextLedger c' = nextLedger c + of_nat (length ms) + 1 \<and>
               metaC c' = OpenChan rest)"
    by blast
next
  assume "metaC c = OpenChan (map delivered (ms @ [x]) @ rest) \<and>
    contiguousFrom (nextLedger c) (ms @ [x]) \<and>
    (\<forall>y \<in> set ms. LedgerSequence y \<noteq> sequence) \<and>
    LedgerSequence x = sequence \<and> lastLedger c \<noteq> Some sequence"
  then show "GetLedger_pull env c sequence =
        Return ((True, x, None),
          c\<lparr> metaC := OpenChan rest,
             nextLedger := nextLedger c + of_nat (length ms) + 1,
             cachedMeta := Some x \<rparr>)"
    using GetLedger_pull_hit [of c ms x rest sequence env] by blast
next
  assume "metaC c = OpenChan (map delivered ms @ delivered x # rest) \<and>
    stop c \<noteq> ClosedChan \<and>
    contiguousFrom (nextLedger c) ms \<and>
    (\<forall>y \<in> set ms. LedgerSequence y \<noteq> sequence) \<and>
    LedgerSequence x \<noteq> nextLedger c + of_nat (length ms)"
  then show "\<exists>c''. GetLedger_pull env c sequence =
         Return ((False, emptyLedgerCloseMeta,
                  Some (''unexpected ledger (expected='' @
                        decimal (unat (nextLedger c + of_nat (length ms))) @
                        '' actual='' @ decimal (unat (LedgerSequence x)) @ '')'')), c'') \<and>
         IsClosed c''"
    using GetLedger_pull_mismatch [of c ms x rest sequence env]
    by (simp add: unexpectedLedger_def)
qed

theorem pull_loop_gate_witness:
  "GetLedger_pull (faithfulEnv 500) gappedBackend 123 =
     Return ((True, LedgerCloseMetaV0 123 0, None),
       gappedBackend\<lparr> metaC := OpenChan (map delivered
                        [LedgerCloseMetaV0 125 0, LedgerCloseMetaV0 126 0]),
                      nextLedger := 124, cachedMeta := Some (LedgerCloseMetaV0 123 0) \<rparr>) \<and>
   (\<exists>ms rest.
      metaC gappedBackend = OpenChan (map delivered (ms @ [LedgerCloseMetaV0 123 0]) @ rest) \<and>
      contiguousFrom 122 (ms @ [LedgerCloseMetaV0 123 0]) \<and>
      (123::u32) = 122 + of_nat (length ms)) \<and>
   (\<exists>c''. GetLedger_pull (faithfulEnv 500) gappedBackend 124 =
      Return ((False, emptyLedgerCloseMeta,
               Some ''unexpected ledger (expected=124 actual=125)''), c'') \<and>
      IsClosed c'')"
proof -
  let ?e = "faithfulEnv 500"
  let ?c' = "gappedBackend\<lparr> metaC := OpenChan (map delivered
                        [LedgerCloseMetaV0 125 0, LedgerCloseMetaV0 126 0]),
                      nextLedger := 124, cachedMeta := Some (LedgerCloseMetaV0 123 0) \<rparr>"
  have hit: "GetLedger_pull ?e gappedBackend 123 =
      Return ((True, LedgerCloseMetaV0 123 0, None), ?c')"
    using pull_loop_gate [of ?e gappedBackend 123 undefined undefined
        "[LedgerCloseMetaV0 122 0]" "LedgerCloseMetaV0 123 0"
        "map delivered [LedgerCloseMetaV0 125 0, LedgerCloseMetaV0 126 0]"]
    by (simp add: gappedBackend_def)
  have conv: "\<exists>ms rest.
      metaC gappedBackend = OpenChan (map delivered (ms @ [LedgerCloseMetaV0 123 0]) @ rest) \<and>
      contiguousFrom 122 (ms @ [LedgerCloseMetaV0 123 0]) \<and>
      (123::u32) = 122 + of_nat (length ms)"
  proof -
    from hit pull_loop_gate [of ?e gappedBackend 123 "LedgerCloseMetaV0 123 0" ?c']
    obtain ms rest where
      "metaC gappedBackend = OpenChan (map delivered (ms @ [LedgerCloseMetaV0 123 0]) @ rest)"
      "contiguousFrom (nextLedger gappedBackend) (ms @ [LedgerCloseMetaV0 123 0])"
      "LedgerSequence (LedgerCloseMetaV0 123 0) = nextLedger gappedBackend + of_nat (length ms)"
      by blast
    moreover have "nextLedger gappedBackend = 122"
      by (simp add: gappedBackend_def)
    ultimately show ?thesis
      by auto
  qed
  have d: "decimal 124 = ''124''" "decimal 125 = ''125''"
    by (simp_all add: decimal.simps)
  have miss: "\<exists>c''. GetLedger_pull ?e gappedBackend 124 =
      Return ((False, emptyLedgerCloseMeta,
               Some ''unexpected ledger (expected=124 actual=125)''), c'') \<and> IsClosed c''"
    using pull_loop_gate [of ?e gappedBackend 124 undefined undefined
        "[LedgerCloseMetaV0 122 0, LedgerCloseMetaV0 123 0]" "LedgerCloseMetaV0 125 0"
        "[delivered (LedgerCloseMetaV0 126 0)]"]
    by (simp add: gappedBackend_def d)
  from hit conv miss show ?thesis
    by blast
qed

subsection \<open>The cache\<close>

lemma cacheHit_iff:
  "cacheHit c sequence = (\<exists>m. cachedMeta c = Some m \<and> LedgerSequence m = sequence)"
  by (cases "cachedMeta c") (auto simp: cacheHit_def)

lemma GetLedger_cached:
  "cachedMeta c = Some m \<Longrightarrow> GetLedger env c (LedgerSequence m) = Return ((True, m, None), c)"
  by (simp add: GetLedger_def cacheHit_def)

lemma GetLedger_pull_caches:
  assumes "GetLedger_pull env c sequence = Return ((True, m, None), c')"
  shows "cachedMeta c' = Some m \<and> LedgerSequence m = sequence"
proof -
  from GetLedger_pull_found [OF assms] obtain rs rs' nextL' where
    p: "pullLoop rs (nextLedger c) sequence = (Found m, rs', nextL')" and
    fin: "if lastLedger c = Some (LedgerSequence m)
          then \<exists>r. Close env (c\<lparr> metaC := OpenChan rs', nextLedger := nextL',
                                  cachedMeta := Some m \<rparr>) = Return (r, c')
          else c' = c\<lparr> metaC := OpenChan rs', nextLedger := nextL', cachedMeta := Some m \<rparr>"
    by blast
  from pullLoop_Found [OF p] have s: "LedgerSequence m = sequence"
    by blast
  have "cachedMeta c' = Some m"
  proof (cases "lastLedger c = Some (LedgerSequence m)")
    case True
    with fin obtain r where
      "Close env (c\<lparr> metaC := OpenChan rs', nextLedger := nextL', cachedMeta := Some m \<rparr>) =
         Return (r, c')"
      by auto
    from Close_Return [OF this] show ?thesis
      by simp
  next
    case False
    with fin show ?thesis
      by simp
  qed
  with s show ?thesis
    by simp
qed

text \<open>
  How a call of \<^verbatim>\<open>GetLedger\<close> that misses the cache and returns a record got it: from the
  pull loop, run in the state that the closing and opening steps left.
\<close>

lemma GetLedger_miss_found:
  assumes "\<not> cacheHit c sequence"
    and "GetLedger env c sequence = Return ((True, m, None), c')"
  shows "\<exists>c2. LedgerWithinCheckpoints c2 sequence 1 \<and>
              GetLedger_pull env c2 sequence = Return ((True, m, None), c')"
  using assms
  by (auto simp: GetLedger_def andThen_eq_Return split: if_splits option.splits)

text \<open>
  C7. If \<^verbatim>\<open>GetLedger(s)\<close> has returned \<open>(true, meta, nil)\<close>, then a second \<^verbatim>\<open>GetLedger(s)\<close>, whatever
  the collaborators would now answer, returns \<open>(true, meta, nil)\<close> again and leaves the backend
  exactly as it was: nothing is received from the channel and \<^verbatim>\<open>nextLedger\<close> is unchanged.
  The cached path returns no error.
\<close>

theorem GetLedger_reread:
  assumes "GetLedger env c s = Return ((True, m, None), c')"
  shows "GetLedger env' c' s = Return ((True, m, None), c') \<and>
         cachedMeta c' = Some m \<and> LedgerSequence m = s"
proof -
  have "cachedMeta c' = Some m \<and> LedgerSequence m = s"
  proof (cases "cacheHit c s")
    case True
    with assms show ?thesis
      by (auto simp: GetLedger_def cacheHit_iff)
  next
    case False
    from GetLedger_miss_found [OF False assms] obtain c2 where
      "GetLedger_pull env c2 s = Return ((True, m, None), c')"
      by blast
    from GetLedger_pull_caches [OF this] show ?thesis .
  qed
  with GetLedger_cached [of c' m env'] show ?thesis
    by auto
qed

lemma GetLedger_gapped_123:
  "GetLedger (faithfulEnv 500) gappedBackend 123 =
     Return ((True, LedgerCloseMetaV0 123 0, None),
       gappedBackend\<lparr> metaC := OpenChan (map delivered
                        [LedgerCloseMetaV0 125 0, LedgerCloseMetaV0 126 0]),
                      nextLedger := 124, cachedMeta := Some (LedgerCloseMetaV0 123 0) \<rparr>)"
  by (simp add: GetLedger_def GetLedger_pull_def cacheHit_def IsClosed_def
      LedgerWithinCheckpoints_def numCheckpointsLeeway_def ledgersPerCheckpoint_def
      gappedBackend_def freshBackend_def NewCaptive_def delivered_def)

theorem GetLedger_reread_witness:
  "GetLedger (faithfulEnv 500) gappedBackend 123 =
     Return ((True, LedgerCloseMetaV0 123 0, None),
       gappedBackend\<lparr> metaC := OpenChan (map delivered
                        [LedgerCloseMetaV0 125 0, LedgerCloseMetaV0 126 0]),
                      nextLedger := 124, cachedMeta := Some (LedgerCloseMetaV0 123 0) \<rparr>) \<and>
   GetLedger (faithfulEnv 7)
     (gappedBackend\<lparr> metaC := OpenChan (map delivered
                        [LedgerCloseMetaV0 125 0, LedgerCloseMetaV0 126 0]),
                      nextLedger := 124, cachedMeta := Some (LedgerCloseMetaV0 123 0) \<rparr>) 123 =
     Return ((True, LedgerCloseMetaV0 123 0, None),
       gappedBackend\<lparr> metaC := OpenChan (map delivered
                        [LedgerCloseMetaV0 125 0, LedgerCloseMetaV0 126 0]),
                      nextLedger := 124, cachedMeta := Some (LedgerCloseMetaV0 123 0) \<rparr>)"
  using GetLedger_reread [OF GetLedger_gapped_123, of "faithfulEnv 7"] GetLedger_gapped_123
  by blast

subsection \<open>The last ledger of a segment\<close>








subsection \<open>Restarting the subprocess\<close>

lemma cacheHit_Close:
  "Close env c = Return (r, c1) \<Longrightarrow> cacheHit c1 sequence = cacheHit c sequence"
  using Close_Return [of env c r c1] by (simp add: cacheHit_def)

lemma GetLedger_closed:
  assumes "\<not> cacheHit c sequence" and "IsClosed c"
  shows "GetLedger env c sequence =
           andThen (openOfflineReplaySubprocess env c sequence (sequence + 17280)) (\<lambda>(e, c2).
             case e of
               Some e' \<Rightarrow>
                 Return ((False, emptyLedgerCloseMeta,
                          Some (errors_Wrap e' ''opening subprocess'')), c2)
             | None \<Rightarrow>
                 if \<not> LedgerWithinCheckpoints c2 sequence 1 then
                   Return ((False, emptyLedgerCloseMeta,
                            Some ''unexpected subprocess next-ledger''), c2)
                 else GetLedger_pull env c2 sequence)"
  using assms by (simp add: GetLedger_def ledgersPerProcess_def)

lemma GetLedger_out_of_window:
  assumes "\<not> cacheHit c sequence" and "\<not> IsClosed c"
    and "\<not> LedgerWithinCheckpoints c sequence numCheckpointsLeeway"
    and "Close env c = Return (r, c1)"
  shows "IsClosed c1 \<and> GetLedger env c sequence = GetLedger env c1 sequence"
proof -
  from Close_Return [OF assms(4)] have cl: "IsClosed c1"
    by simp
  from assms(1) cacheHit_Close [OF assms(4)] have miss: "\<not> cacheHit c1 sequence"
    by simp
  have "GetLedger env c sequence =
      andThen (openOfflineReplaySubprocess env c1 sequence (sequence + 17280)) (\<lambda>(e, c2).
             case e of
               Some e' \<Rightarrow>
                 Return ((False, emptyLedgerCloseMeta,
                          Some (errors_Wrap e' ''opening subprocess'')), c2)
             | None \<Rightarrow>
                 if \<not> LedgerWithinCheckpoints c2 sequence 1 then
                   Return ((False, emptyLedgerCloseMeta,
                            Some ''unexpected subprocess next-ledger''), c2)
                 else GetLedger_pull env c2 sequence)"
    using assms cl by (simp add: GetLedger_def ledgersPerProcess_def)
  with GetLedger_closed [OF miss cl, of env] cl show ?thesis
    by simp
qed

text \<open>
  C5, as amended. For every \<open>sequence\<close> other than that of the cached record:
  \<^item> on an open backend whose \<^verbatim>\<open>nextLedger\<close> does not satisfy
    \<open>nextLedger \<le> sequence \<le> nextLedger + 10 * ledgersPerCheckpoint\<close> (in 32-bit arithmetic),
    \<^verbatim>\<open>GetLedger(sequence)\<close> first closes the backend, and goes on as on the closed backend;
  \<^item> on a closed backend it calls \<^verbatim>\<open>openOfflineReplaySubprocess(sequence, sequence + 17280)\<close>,
    returning its error if there is one;
  \<^item> which, when the archive's latest ledger \<open>max\<close> is at least \<open>sequence\<close>, runs the child for
    \<open>sequence\<close> and \<open>min (sequence + 17280) max\<close>, and leaves \<^verbatim>\<open>nextLedger\<close> at the start of the
    checkpoint of \<open>sequence\<close> and \<^verbatim>\<open>lastLedger\<close> at \<open>min (sequence + 17280) max\<close>;
  \<^item> and when \<open>max\<close> is below \<open>sequence\<close>, \<^verbatim>\<open>GetLedger\<close> returns the error ``opening subprocess:
    sequence \<dots> greater than max available \<dots>''.
\<close>

theorem GetLedger_restart:
  "(\<not> cacheHit c sequence \<and> \<not> IsClosed c \<and>
    \<not> (nextLedger c \<le> sequence \<and> sequence \<le> nextLedger c + 10 * ledgersPerCheckpoint) \<and>
    Close env c = Return (r, c1) \<longrightarrow>
      IsClosed c1 \<and> GetLedger env c sequence = GetLedger env c1 sequence) \<and>
   (\<not> cacheHit c sequence \<and> IsClosed c \<longrightarrow>
      GetLedger env c sequence =
        andThen (openOfflineReplaySubprocess env c sequence (sequence + 17280)) (\<lambda>(e, c2).
          case e of
            Some e' \<Rightarrow>
              Return ((False, emptyLedgerCloseMeta,
                       Some (errors_Wrap e' ''opening subprocess'')), c2)
          | None \<Rightarrow>
              if \<not> LedgerWithinCheckpoints c2 sequence 1 then
                Return ((False, emptyLedgerCloseMeta,
                         Some ''unexpected subprocess next-ledger''), c2)
              else GetLedger_pull env c2 sequence)) \<and>
   (IsClosed c \<and> GetLatestLedgerSequence env c = Return ((maxLedger, None), c2) \<and>
    sequence \<le> maxLedger \<and>
    runner_run env (clock c2) sequence (min (sequence + 17280) maxLedger) = Inr p \<longrightarrow>
      openOfflineReplaySubprocess env c sequence (sequence + 17280) =
        Return (None,
          c2\<lparr> clock := Suc (clock c2),
              stellarCoreRunner := p,
              nextLedger := roundDownToFirstReplayAfterCheckpointStart sequence,
              lastLedger := Some (min (sequence + 17280) maxLedger),
              metaC := OpenChan (sendLedgerMeta p (min (sequence + 17280) maxLedger)),
              stop := OpenChan () \<rparr>)) \<and>
   (\<not> cacheHit c sequence \<and> IsClosed c \<and>
    GetLatestLedgerSequence env c = Return ((maxLedger, None), c2) \<and>
    sequence > maxLedger \<longrightarrow>
      GetLedger env c sequence =
        Return ((False, emptyLedgerCloseMeta,
                 Some (''opening subprocess: sequence '' @ decimal (unat sequence) @
                       '' greater than max available '' @ decimal (unat maxLedger))), c2))"
proof -
  have first: "IsClosed c1 \<and> GetLedger env c sequence = GetLedger env c1 sequence"
    if a: "\<not> cacheHit c sequence \<and> \<not> IsClosed c \<and>
      \<not> (nextLedger c \<le> sequence \<and> sequence \<le> nextLedger c + 10 * ledgersPerCheckpoint) \<and>
      Close env c = Return (r, c1)"
  proof -
    from a have "\<not> LedgerWithinCheckpoints c sequence numCheckpointsLeeway"
      by (simp add: LedgerWithinCheckpoints_def numCheckpointsLeeway_def)
    with a show ?thesis
      using GetLedger_out_of_window [of c sequence env r c1] by blast
  qed
  have second: "GetLedger env c sequence =
        andThen (openOfflineReplaySubprocess env c sequence (sequence + 17280)) (\<lambda>(e, c2).
          case e of
            Some e' \<Rightarrow>
              Return ((False, emptyLedgerCloseMeta,
                       Some (errors_Wrap e' ''opening subprocess'')), c2)
          | None \<Rightarrow>
              if \<not> LedgerWithinCheckpoints c2 sequence 1 then
                Return ((False, emptyLedgerCloseMeta,
                         Some ''unexpected subprocess next-ledger''), c2)
              else GetLedger_pull env c2 sequence)"
    if "\<not> cacheHit c sequence \<and> IsClosed c"
    using that GetLedger_closed [of c sequence env] by blast
  have third: "openOfflineReplaySubprocess env c sequence (sequence + 17280) =
        Return (None,
          c2\<lparr> clock := Suc (clock c2),
              stellarCoreRunner := p,
              nextLedger := roundDownToFirstReplayAfterCheckpointStart sequence,
              lastLedger := Some (min (sequence + 17280) maxLedger),
              metaC := OpenChan (sendLedgerMeta p (min (sequence + 17280) maxLedger)),
              stop := OpenChan () \<rparr>)"
    if a: "IsClosed c \<and> GetLatestLedgerSequence env c = Return ((maxLedger, None), c2) \<and>
      sequence \<le> maxLedger \<and>
      runner_run env (clock c2) sequence (min (sequence + 17280) maxLedger) = Inr p"
  proof -
    from a have "Close env c = Return (None, c)"
      by (simp add: Close_closed)
    from openOfflineReplaySubprocess_started
      [OF this, of maxLedger c2 sequence "sequence + 17280" p] a
    show ?thesis
      by blast
  qed
  have fourth: "GetLedger env c sequence =
        Return ((False, emptyLedgerCloseMeta,
                 Some (''opening subprocess: sequence '' @ decimal (unat sequence) @
                       '' greater than max available '' @ decimal (unat maxLedger))), c2)"
    if a: "\<not> cacheHit c sequence \<and> IsClosed c \<and>
      GetLatestLedgerSequence env c = Return ((maxLedger, None), c2) \<and>
      sequence > maxLedger"
  proof -
    from a have "Close env c = Return (None, c)"
      by (simp add: Close_closed)
    from openOfflineReplaySubprocess_beyond_max
      [OF this, of maxLedger c2 sequence "sequence + 17280"] a
    have "openOfflineReplaySubprocess env c sequence (sequence + 17280) =
        Return (Some (sequenceGreaterThanMax sequence maxLedger), c2)"
      by blast
    with a GetLedger_closed [of c sequence env] show ?thesis
      by (simp add: sequenceGreaterThanMax_def errors_Wrap_def)
  qed
  from first second third fourth show ?thesis
    by blast
qed

text \<open>
  C5 as stated fails for the sequence of the cached record. After \<^verbatim>\<open>GetLedger(150)\<close> the
  backend is open with \<^verbatim>\<open>nextLedger = 151\<close>, so that 150 is outside the window; a second
  \<^verbatim>\<open>GetLedger(150)\<close> returns the cached record and does not close the backend.
\<close>

theorem cached_request_counterexample:
  "\<not> IsClosed afterRead \<and> nextLedger afterRead = 151 \<and>
   \<not> (nextLedger afterRead \<le> 150 \<and> 150 \<le> nextLedger afterRead + 10 * ledgersPerCheckpoint) \<and>
   GetLedger (faithfulEnv 200) afterRead 150 =
     Return ((True, LedgerCloseMetaV0 150 0, None), afterRead)"
  by code_simp

lemma Close_gapped:
  "Close env gappedBackend =
     (case runner_close env 2 of
        Some e \<Rightarrow> Return (Some (errors_Wrap e ''error closing stellar-core subprocess''),
          gappedBackend\<lparr> nextLedger := 0, stop := ClosedChan, metaC := ClosedChan,
            lastLedger := None, stellarCoreRunner := None, clock := 3 \<rparr>)
      | None \<Rightarrow> Return (None,
          gappedBackend\<lparr> nextLedger := 0, stop := ClosedChan, metaC := ClosedChan,
            lastLedger := None, stellarCoreRunner := None, clock := 3 \<rparr>))"
  by (simp add: Close_def closeChannels_def IsClosed_def gappedBackend_def freshBackend_def
      NewCaptive_def split: option.splits)

theorem GetLedger_restart_witness:
  "\<not> cacheHit gappedBackend 900 \<and> \<not> IsClosed gappedBackend \<and>
   nextLedger gappedBackend = 122 \<and>
   Close (faithfulEnv 1000) gappedBackend =
     Return (None, gappedBackend\<lparr> nextLedger := 0, stop := ClosedChan, metaC := ClosedChan,
                     lastLedger := None, stellarCoreRunner := None, clock := 3 \<rparr>) \<and>
   IsClosed (gappedBackend\<lparr> nextLedger := 0, stop := ClosedChan, metaC := ClosedChan,
               lastLedger := None, stellarCoreRunner := None, clock := 3 \<rparr>) \<and>
   GetLedger (faithfulEnv 1000) gappedBackend 900 =
     GetLedger (faithfulEnv 1000)
       (gappedBackend\<lparr> nextLedger := 0, stop := ClosedChan, metaC := ClosedChan,
          lastLedger := None, stellarCoreRunner := None, clock := 3 \<rparr>) 900 \<and>
   \<not> cacheHit freshBackend 900 \<and> IsClosed freshBackend \<and>
   GetLedger (faithfulEnv 1000) freshBackend 900 =
     GetLedger_pull (faithfulEnv 1000)
       (freshBackend\<lparr> clock := 2, stellarCoreRunner := Some (replay 900 1000),
          nextLedger := roundDownToFirstReplayAfterCheckpointStart 900,
          lastLedger := Some 1000,
          metaC := OpenChan (sendLedgerMeta (Some (replay 900 1000)) 1000),
          stop := OpenChan () \<rparr>) 900 \<and>
   openOfflineReplaySubprocess (faithfulEnv 1000) freshBackend 900 (900 + 17280) =
     Return (None,
       freshBackend\<lparr> clock := 2, stellarCoreRunner := Some (replay 900 1000),
         nextLedger := roundDownToFirstReplayAfterCheckpointStart 900,
         lastLedger := Some 1000,
         metaC := OpenChan (sendLedgerMeta (Some (replay 900 1000)) 1000),
         stop := OpenChan () \<rparr>) \<and>
   (900::u32) > 100 \<and>
   GetLedger (faithfulEnv 100) freshBackend 900 =
     Return ((False, emptyLedgerCloseMeta,
              Some ''opening subprocess: sequence 900 greater than max available 100''),
             freshBackend\<lparr> clock := 1 \<rparr>)"
proof -
  let ?e = "faithfulEnv 1000"
  let ?g = "gappedBackend\<lparr> nextLedger := 0, stop := ClosedChan, metaC := ClosedChan,
              lastLedger := None, stellarCoreRunner := None, clock := 3 \<rparr>"
  let ?o = "freshBackend\<lparr> clock := 2, stellarCoreRunner := Some (replay 900 1000),
          nextLedger := roundDownToFirstReplayAfterCheckpointStart 900,
          lastLedger := Some 1000,
          metaC := OpenChan (sendLedgerMeta (Some (replay 900 1000)) 1000),
          stop := OpenChan () \<rparr>"
  have miss: "\<not> cacheHit gappedBackend 900"
    by (simp add: cacheHit_def gappedBackend_def freshBackend_def NewCaptive_def)
  have opn: "\<not> IsClosed gappedBackend" and nl: "nextLedger gappedBackend = 122"
    by (simp_all add: IsClosed_def gappedBackend_def)
  have out: "\<not> (nextLedger gappedBackend \<le> 900 \<and>
      900 \<le> nextLedger gappedBackend + 10 * ledgersPerCheckpoint)"
    by (simp add: nl ledgersPerCheckpoint_def)
  have cl: "Close ?e gappedBackend = Return (None, ?g)"
    by (simp add: Close_gapped faithfulEnv_def)
  have fresh: "IsClosed freshBackend" and fmiss: "\<not> cacheHit freshBackend 900"
    by (simp_all add: IsClosed_def cacheHit_def freshBackend_def NewCaptive_def)
  have run: "runner_run ?e (clock (freshBackend\<lparr> clock := 1 \<rparr>)) 900 (min (900 + 17280) 1000) =
      Inr (Some (replay 900 1000))"
    by (simp add: faithfulEnv_def)
  have first: "IsClosed ?g \<and> GetLedger ?e gappedBackend 900 = GetLedger ?e ?g 900"
    using GetLedger_restart [of gappedBackend 900 ?e None ?g] miss opn out cl
    by blast
  have third: "openOfflineReplaySubprocess ?e freshBackend 900 (900 + 17280) = Return (None, ?o)"
    using GetLedger_restart [of freshBackend 900 ?e undefined undefined 1000
        "freshBackend\<lparr> clock := 1 \<rparr>" "Some (replay 900 1000)"]
      fresh GetLatestLedgerSequence_fresh [of 1000] run
    by simp
  have within: "LedgerWithinCheckpoints ?o 900 1"
    by (simp add: LedgerWithinCheckpoints_def roundDownToFirstReplayAfterCheckpointStart_def
        ledgersPerCheckpoint_def)
  have second: "GetLedger ?e freshBackend 900 = GetLedger_pull ?e ?o 900"
    using GetLedger_restart [of freshBackend 900 ?e] fmiss fresh third within
    by simp
  have d: "decimal 900 = ''900''" "decimal 100 = ''100''"
    by (simp_all add: decimal.simps)
  have big: "(900::u32) > 100"
    by simp
  have fourth: "GetLedger (faithfulEnv 100) freshBackend 900 =
      Return ((False, emptyLedgerCloseMeta,
               Some ''opening subprocess: sequence 900 greater than max available 100''),
              freshBackend\<lparr> clock := 1 \<rparr>)"
  proof -
    have "GetLedger (faithfulEnv 100) freshBackend 900 =
        Return ((False, emptyLedgerCloseMeta,
                 Some (''opening subprocess: sequence '' @ decimal (unat (900::u32)) @
                       '' greater than max available '' @ decimal (unat (100::u32)))),
                freshBackend\<lparr> clock := 1 \<rparr>)"
      using GetLedger_restart [of freshBackend 900 "faithfulEnv 100" undefined undefined 100
          "freshBackend\<lparr> clock := 1 \<rparr>"]
        fmiss fresh GetLatestLedgerSequence_fresh [of 100] big
      by blast
    then show ?thesis
      by (simp add: d)
  qed
  from miss opn nl cl first fmiss fresh second third big fourth show ?thesis
    by blast
qed

subsection \<open>The range check of PrepareRange\<close>






subsection \<open>What GetLedger returns, and the sequence 0\<close>

lemma GetLedger_pull_Return:
  assumes "GetLedger_pull env c sequence = Return (res, c')"
  shows "(\<exists>m. res = (True, m, None) \<and> cachedMeta c' = Some m \<and> LedgerSequence m = sequence) \<or>
         (\<exists>e. res = (False, emptyLedgerCloseMeta, Some e) \<and> cachedMeta c' = cachedMeta c \<and>
              IsClosed c')"
proof -
  from assms obtain rs where rs: "metaC c = OpenChan rs"
    by (auto simp: GetLedger_pull_def split: chan.splits)
  obtain ex rs' nextL' where p: "pullLoop rs (nextLedger c) sequence = (ex, rs', nextL')"
    by (cases "pullLoop rs (nextLedger c) sequence") auto
  show ?thesis
  proof (cases ex)
    case (Found m)
    with assms rs p have "res = (True, m, None)"
      by (auto simp: GetLedger_pull_def andThen_eq_Return Let_def split: if_splits)
    with assms GetLedger_pull_caches [of env c sequence m c'] show ?thesis
      by simp
  next
    case (ErrOut e)
    with assms rs p obtain r where
      cl: "Close env (c\<lparr> metaC := OpenChan rs', nextLedger := nextL' \<rparr>) = Return (r, c')"
      and res: "res = (False, emptyLedgerCloseMeta, Some e)"
      by (auto simp: GetLedger_pull_def andThen_eq_Return)
    from Close_Return [OF cl] res show ?thesis
      by simp
  next
    case Starved
    with assms rs p show ?thesis
      by (simp add: GetLedger_pull_def)
  next
    case (Crashed x)
    with assms rs p show ?thesis
      by (simp add: GetLedger_pull_def)
  qed
qed

text \<open>
  The state in which \<^verbatim>\<open>GetLedger\<close> reaches its check of the range, after closing and opening
  as needed: the backend is open there.
\<close>

lemma GetLedger_miss_Return:
  assumes "\<not> cacheHit c sequence" and "GetLedger env c sequence = Return (res, c')"
  shows "(\<exists>e. res = (False, emptyLedgerCloseMeta, Some e) \<and> cachedMeta c' = cachedMeta c) \<or>
         (\<exists>c2. \<not> IsClosed c2 \<and> cachedMeta c2 = cachedMeta c \<and>
               LedgerWithinCheckpoints c2 sequence 1 \<and>
               GetLedger_pull env c2 sequence = Return (res, c'))"
proof -
  let ?first = "if \<not> IsClosed c \<and> \<not> LedgerWithinCheckpoints c sequence numCheckpointsLeeway
                then Close env c else Return (None, c)"
  from assms obtain r c1 where f: "?first = Return (r, c1)"
    by (auto simp: GetLedger_def andThen_eq_Return)
  have c1: "cachedMeta c1 = cachedMeta c"
    using f Close_Return [of env c r c1] by (auto split: if_splits)
  let ?second = "if IsClosed c1
                 then openOfflineReplaySubprocess env c1 sequence (sequence + ledgersPerProcess)
                 else Return (None, c1)"
  from assms f obtain e c2 where s: "?second = Return (e, c2)"
    by (auto simp: GetLedger_def andThen_eq_Return)
  have c2: "cachedMeta c2 = cachedMeta c \<and> (e = None \<longrightarrow> \<not> IsClosed c2)"
  proof (cases "IsClosed c1")
    case True
    with s openOfflineReplaySubprocess_Return
      [of env c1 sequence "sequence + ledgersPerProcess" e c2] c1
    show ?thesis
      by (auto simp: IsClosed_def)
  next
    case False
    with s c1 show ?thesis
      by auto
  qed
  from assms f s have rest: "(case e of
            Some e' \<Rightarrow>
              Return ((False, emptyLedgerCloseMeta, Some (errors_Wrap e' ''opening subprocess'')), c2)
          | None \<Rightarrow>
              if \<not> LedgerWithinCheckpoints c2 sequence 1 then
                Return ((False, emptyLedgerCloseMeta,
                         Some ''unexpected subprocess next-ledger''), c2)
              else GetLedger_pull env c2 sequence) = Return (res, c')"
    by (simp add: GetLedger_def)
  show ?thesis
  proof (cases e)
    case (Some e')
    with rest c2 show ?thesis
      by auto
  next
    case None
    show ?thesis
    proof (cases "LedgerWithinCheckpoints c2 sequence 1")
      case True
      with rest None c2 show ?thesis
        by auto
    next
      case False
      with rest None c2 show ?thesis
        by auto
    qed
  qed
qed

lemma not_within_zero: "\<not> IsClosed c \<Longrightarrow> \<not> LedgerWithinCheckpoints c 0 n"
  by (simp add: IsClosed_def LedgerWithinCheckpoints_def)

lemma GetLedger_zero:
  assumes "\<not> cacheHit c 0" and "GetLedger env c 0 = Return ((found, m, e), c')"
  shows "e \<noteq> None"
  using GetLedger_miss_Return [OF assms] not_within_zero by auto

lemma GetLedger_zero_not_Blocked:
  assumes "\<not> cacheHit c 0"
  shows "GetLedger env c 0 \<noteq> Blocked"
proof
  assume b: "GetLedger env c 0 = Blocked"
  let ?first = "if \<not> IsClosed c \<and> \<not> LedgerWithinCheckpoints c 0 numCheckpointsLeeway
                then Close env c else Return (None, c)"
  from b assms obtain r c1 where f: "?first = Return (r, c1)"
    by (auto simp: GetLedger_def andThen_eq_Blocked Close_not_Blocked split: if_splits)
  let ?second = "if IsClosed c1
                 then openOfflineReplaySubprocess env c1 0 (0 + ledgersPerProcess)
                 else Return (None, c1)"
  from b assms f obtain e c2 where s: "?second = Return (e, c2)"
    by (auto simp: GetLedger_def andThen_eq_Blocked openOfflineReplaySubprocess_not_Blocked
        split: if_splits)
  have "e = None \<longrightarrow> \<not> IsClosed c2"
  proof (cases "IsClosed c1")
    case True
    with s openOfflineReplaySubprocess_Return [of env c1 0 "0 + ledgersPerProcess" e c2]
    show ?thesis
      by (auto simp: IsClosed_def)
  next
    case False
    with s show ?thesis
      by auto
  qed
  with not_within_zero [of c2 1] have "e = None \<longrightarrow> \<not> LedgerWithinCheckpoints c2 0 1"
    by blast
  with b assms f s show False
    by (cases e) (simp_all add: GetLedger_def)
qed

lemma openOfflineReplaySubprocess_returns:
  assumes "Close env c = Return (r, c1)" and "historyURLs c \<noteq> []"
  shows "\<exists>e c'. openOfflineReplaySubprocess env c nextL lastL = Return (e, c') \<and>
                historyURLs c' = historyURLs c"
proof -
  from Close_Return [OF assms(1)] assms(2) have u: "historyURLs c1 \<noteq> []"
    and u1: "historyURLs c1 = historyURLs c"
    by simp_all
  from GetLatestLedgerSequence_nonempty [OF u, of env] obtain maxLedger e1 c2 where
    g: "GetLatestLedgerSequence env c1 = Return ((maxLedger, e1), c2)"
    by auto
  from GetLatestLedgerSequence_Return [OF g] u1 have u2: "historyURLs c2 = historyURLs c"
    by simp
  show ?thesis
    using assms(1) g u2
    by (cases e1; cases "runner_run env (clock c2) nextL
          (if lastL > maxLedger then maxLedger else lastL)")
       (auto simp: openOfflineReplaySubprocess_def Let_def)
qed

lemma open_when_closed:
  assumes "(if IsClosed c1 then openOfflineReplaySubprocess env c1 nextL lastL
            else Return (None, c1)) = Return (None, c2)"
  shows "\<not> IsClosed c2"
proof (cases "IsClosed c1")
  case True
  with assms openOfflineReplaySubprocess_Return [of env c1 nextL lastL None c2]
  show ?thesis
    by (auto simp: IsClosed_def)
next
  case False
  with assms show ?thesis
    by auto
qed

lemma GetLedger_zero_returns:
  assumes "\<not> cacheHit c 0" and "historyURLs c \<noteq> []"
    and "IsClosed c \<or> (stop c = OpenChan () \<and> (\<exists>rs. metaC c = OpenChan rs))"
  shows "\<exists>e c'. GetLedger env c 0 = Return ((False, emptyLedgerCloseMeta, Some e), c')"
proof -
  let ?first = "if \<not> IsClosed c \<and> \<not> LedgerWithinCheckpoints c 0 numCheckpointsLeeway
                then Close env c else Return (None, c)"
  have "\<exists>r c1. ?first = Return (r, c1) \<and> historyURLs c1 = historyURLs c"
  proof (cases "IsClosed c")
    case True
    then show ?thesis by simp
  next
    case False
    with assms(3) obtain rs where "stop c \<noteq> ClosedChan" "metaC c = OpenChan rs"
      by auto
    from Close_returns [OF this, of env] obtain r c1 where cl: "Close env c = Return (r, c1)"
      by blast
    from Close_Return [OF cl] cl show ?thesis
      by auto
  qed
  then obtain r c1 where f: "?first = Return (r, c1)" and u1: "historyURLs c1 = historyURLs c"
    by blast
  let ?second = "if IsClosed c1
                 then openOfflineReplaySubprocess env c1 0 (0 + ledgersPerProcess)
                 else Return (None, c1)"
  have "\<exists>e c2. ?second = Return (e, c2)"
  proof (cases "IsClosed c1")
    case True
    from openOfflineReplaySubprocess_returns [OF Close_closed [OF True], of env] u1 assms(2)
    show ?thesis
      using True by (simp del: add_0) blast
  next
    case False
    then show ?thesis by simp
  qed
  then obtain e c2 where s: "?second = Return (e, c2)"
    by blast
  have "e = None \<longrightarrow> \<not> LedgerWithinCheckpoints c2 0 1"
    using s open_when_closed [of c1 env 0 "0 + ledgersPerProcess" c2] not_within_zero [of c2 1]
    by blast
  with f s have "\<exists>res c'. GetLedger env c 0 = Return (res, c')"
    using assms(1)
    by (cases e) (auto simp: GetLedger_def simp del: add_0)
  then obtain res c' where g: "GetLedger env c 0 = Return (res, c')"
    by blast
  from GetLedger_miss_Return [OF assms(1) g] not_within_zero g show ?thesis
    by auto
qed

subsection \<open>The cache never holds sequence 0\<close>

lemma cacheHit_open:
  "openOfflineReplaySubprocess env c nextL lastL = Return (e, c') \<Longrightarrow>
   cacheHit c' sequence = cacheHit c sequence"
  using openOfflineReplaySubprocess_Return [of env c nextL lastL e c']
  by (simp add: cacheHit_def)

lemma GetLedger_keeps_zero_uncached:
  assumes "\<not> cacheHit c 0" and "GetLedger env c sequence = Return (res, c')"
  shows "\<not> cacheHit c' 0"
proof (cases "cacheHit c sequence")
  case True
  with assms show ?thesis
    by (auto simp: GetLedger_def)
next
  case False
  from GetLedger_miss_Return [OF False assms(2)] show ?thesis
  proof (elim disjE exE conjE)
    fix e
    assume "cachedMeta c' = cachedMeta c"
    with assms(1) show ?thesis
      by (simp add: cacheHit_def)
  next
    fix c2
    assume c2: "\<not> IsClosed c2" "cachedMeta c2 = cachedMeta c"
      "LedgerWithinCheckpoints c2 sequence 1"
      "GetLedger_pull env c2 sequence = Return (res, c')"
    from c2(1,3) not_within_zero [of c2 1] have nz: "sequence \<noteq> 0"
      by auto
    from GetLedger_pull_Return [OF c2(4)] c2(2) assms(1) nz show ?thesis
      by (auto simp: cacheHit_def)
  qed
qed

lemma PrepareRange_keeps_zero_uncached:
  assumes "\<not> cacheHit c 0" and "PrepareRange env c from to = Return (e, c')"
  shows "\<not> cacheHit c' 0"
proof -
  from assms(2) obtain e1 c1 where
    o: "openOfflineReplaySubprocess env c (from - 1) to = Return (e1, c1)"
    by (auto simp: PrepareRange_def andThen_eq_Return)
  from cacheHit_open [OF o] assms(1) have c1: "\<not> cacheHit c1 0"
    by simp
  show ?thesis
  proof (cases "e1 = None \<and> stellarCoreRunner c1 \<noteq> None")
    case False
    with assms(2) o have "c' = c1"
      by (cases e1) (auto simp: PrepareRange_def)
    with c1 show ?thesis
      by simp
  next
    case True
    with assms(2) o obtain res where "GetLedger env c1 (from - 1) = Return (res, c')"
      by (auto simp: PrepareRange_def andThen_eq_Return split: option.splits)
    from GetLedger_keeps_zero_uncached [OF c1 this] show ?thesis .
  qed
qed

text \<open>
  \<^verbatim>\<open>PrepareRange(1, to)\<close> on a backend whose cache does not hold a record of sequence 0: it
  never returns \<^verbatim>\<open>nil\<close> and never blocks, and when \<^verbatim>\<open>Close\<close> returns and there is an archive
  URL, it returns an error.
\<close>

lemma PrepareRange_one_uncached:
  "(\<not> cacheHit c 0 \<longrightarrow>
      (\<forall>c'. PrepareRange env c 1 to \<noteq> Return (None, c')) \<and>
      PrepareRange env c 1 to \<noteq> Blocked) \<and>
   (\<not> cacheHit c 0 \<and> historyURLs c \<noteq> [] \<and> Close env c = Return (r, c1) \<longrightarrow>
      (\<exists>e c'. PrepareRange env c 1 to = Return (Some e, c')))"
proof -
  have w: "(1::u32) - 1 = 0"
    by simp
  have never: "(\<forall>c'. PrepareRange env c 1 to \<noteq> Return (None, c')) \<and>
      PrepareRange env c 1 to \<noteq> Blocked" if miss: "\<not> cacheHit c 0"
  proof (cases "openOfflineReplaySubprocess env c 0 to")
    case (Panic x)
    then show ?thesis
      by (simp add: PrepareRange_def)
  next
    case Blocked
    then show ?thesis
      by (simp add: openOfflineReplaySubprocess_not_Blocked)
  next
    case (Return a)
    obtain e1 c1' where a: "a = (e1, c1')"
      by (cases a)
    from cacheHit_open [of env c 0 to e1 c1' 0] Return a miss have m1: "\<not> cacheHit c1' 0"
      by simp
    show ?thesis
    proof (cases "e1 = None \<and> stellarCoreRunner c1' \<noteq> None")
      case False
      with Return a show ?thesis
        by (cases e1) (auto simp: PrepareRange_def)
    next
      case True
      show ?thesis
      proof (cases "GetLedger env c1' 0")
        case (Panic x)
        with Return a True show ?thesis
          by (auto simp: PrepareRange_def)
      next
        case Blocked
        with GetLedger_zero_not_Blocked [OF m1, of env] show ?thesis
          by simp
      next
        case (Return b)
        obtain found m e2 c2' where b: "b = ((found, m, e2), c2')"
          by (cases b) auto
        from GetLedger_zero [OF m1, of env found m e2 c2'] Return b have "e2 \<noteq> None"
          by simp
        with \<open>openOfflineReplaySubprocess env c 0 to = Return a\<close> a True Return b
        show ?thesis
          by (auto simp: PrepareRange_def)
      qed
    qed
  qed
  have returns: "\<exists>e c'. PrepareRange env c 1 to = Return (Some e, c')"
    if h: "\<not> cacheHit c 0 \<and> historyURLs c \<noteq> [] \<and> Close env c = Return (r, c1)"
  proof -
    from h openOfflineReplaySubprocess_returns [of env c r c1 0 to] obtain e1 c1' where
      o: "openOfflineReplaySubprocess env c 0 to = Return (e1, c1')" and
      u: "historyURLs c1' = historyURLs c"
      by blast
    from cacheHit_open [OF o] h have m1: "\<not> cacheHit c1' 0"
      by simp
    show ?thesis
    proof (cases "e1 = None \<and> stellarCoreRunner c1' \<noteq> None")
      case False
      with o show ?thesis
        by (cases e1) (auto simp: PrepareRange_def)
    next
      case True
      with openOfflineReplaySubprocess_Return [OF o]
      have "stop c1' = OpenChan () \<and> (\<exists>rs. metaC c1' = OpenChan rs)"
        by simp
      with GetLedger_zero_returns [OF m1, of env] u h obtain e2 c2' where
        "GetLedger env c1' 0 = Return ((False, emptyLedgerCloseMeta, Some e2), c2')"
        by auto
      with o True show ?thesis
        by (auto simp: PrepareRange_def)
    qed
  qed
  from never returns show ?thesis
    by blast
qed

text \<open>
  C8 as stated fails: ledger 1 can be retrieved. The archive's latest ledger is 100.
  On a new backend \<^verbatim>\<open>GetLedger(1)\<close> returns the record of sequence 1. And after
  \<^verbatim>\<open>PrepareRange(1, 50)\<close> has returned its error, \<^verbatim>\<open>GetLedger(1)\<close> returns that record too.
\<close>

theorem ledger_one_counterexample:
  "returned (GetLedger (faithfulEnv 100) freshBackend 1) =
     Some (True, LedgerCloseMetaV0 1 0, None) \<and>
   returned (PrepareRange (faithfulEnv 100) freshBackend 1 50) =
     Some (Some ''opening getting ledger `from-1`: unexpected subprocess next-ledger'') \<and>
   returned (GetLedger (faithfulEnv 100) afterProbe 1) =
     Some (True, LedgerCloseMetaV0 1 0, None)"
  by code_simp

subsection \<open>What holds of every reachable backend\<close>

lemma channelsPaired_open:
  "\<not> IsClosed c \<Longrightarrow> channelsPaired c \<Longrightarrow> stop c = OpenChan () \<and> (\<exists>rs. metaC c = OpenChan rs)"
  by (cases "metaC c") (simp_all add: channelsPaired_def)

lemma channelsPaired_clock [simp]: "channelsPaired (c\<lparr> clock := n \<rparr>) = channelsPaired c"
  by (cases "metaC c") (simp_all add: channelsPaired_def IsClosed_def)

lemma Close_channelsPaired_returns:
  assumes "channelsPaired c"
  shows "\<exists>r c'. Close env c = Return (r, c')"
proof (cases "IsClosed c")
  case True
  then show ?thesis
    by (simp add: Close_closed)
next
  case False
  from channelsPaired_open [OF False assms] obtain rs where
    "stop c \<noteq> ClosedChan" "metaC c = OpenChan rs"
    by auto
  from Close_returns [OF this] show ?thesis .
qed

lemma Close_channelsPaired:
  assumes "channelsPaired c" and "Close env c = Return (r, c')"
  shows "channelsPaired c'"
proof (cases "IsClosed c")
  case True
  with assms show ?thesis
    by (simp add: Close_closed)
next
  case False
  from channelsPaired_open [OF False assms(1)] obtain rs where
    "stop c = OpenChan ()" "metaC c = OpenChan rs"
    by auto
  with False assms(2) show ?thesis
    by (auto simp: Close_def closeChannels_def channelsPaired_def IsClosed_def Let_def
        split: option.splits)
qed

lemma openOfflineReplaySubprocess_channelsPaired:
  assumes "channelsPaired c" and "openOfflineReplaySubprocess env c nextL lastL = Return (e, c')"
  shows "channelsPaired c'"
proof -
  from assms(2) obtain r c1 where cl: "Close env c = Return (r, c1)"
    by (auto simp: openOfflineReplaySubprocess_def andThen_eq_Return)
  with assms(2) obtain maxLedger e1 c2 where
    gl: "GetLatestLedgerSequence env c1 = Return ((maxLedger, e1), c2)"
    by (auto simp: openOfflineReplaySubprocess_def andThen_eq_Return)
  from Close_channelsPaired [OF assms(1) cl] GetLatestLedgerSequence_Return [OF gl]
  have p2: "channelsPaired c2"
    by simp
  show ?thesis
  proof (cases e)
    case None
    with openOfflineReplaySubprocess_Return [OF assms(2)] show ?thesis
      by (auto simp: channelsPaired_def)
  next
    case (Some x)
    with assms(2) cl gl have "c' = c2 \<or> c' = c2\<lparr> clock := Suc (clock c2) \<rparr>"
      by (auto simp: openOfflineReplaySubprocess_def Let_def
          split: option.splits if_splits sum.splits)
    with p2 show ?thesis
      by auto
  qed
qed

lemma GetLedger_pull_channelsPaired:
  assumes "channelsPaired c" and "GetLedger_pull env c sequence = Return (res, c')"
  shows "channelsPaired c'"
proof -
  from assms(2) obtain rs where rs: "metaC c = OpenChan rs"
    by (auto simp: GetLedger_pull_def split: chan.splits)
  with assms(1) have st: "stop c = OpenChan ()"
    by (simp add: channelsPaired_def)
  obtain ex rs' nextL' where p: "pullLoop rs (nextLedger c) sequence = (ex, rs', nextL')"
    by (cases "pullLoop rs (nextLedger c) sequence") auto
  have mid: "channelsPaired (c\<lparr> metaC := OpenChan rs', nextLedger := nextL' \<rparr>)"
    and mid': "channelsPaired (c\<lparr> metaC := OpenChan rs', nextLedger := nextL', cachedMeta := x \<rparr>)"
    for x
    using st by (simp_all add: channelsPaired_def)
  show ?thesis
  proof (cases ex)
    case (Found m)
    with assms(2) rs p have
      "(\<exists>r. Close env (c\<lparr> metaC := OpenChan rs', nextLedger := nextL',
                          cachedMeta := Some m \<rparr>) = Return (r, c')) \<or>
       c' = c\<lparr> metaC := OpenChan rs', nextLedger := nextL', cachedMeta := Some m \<rparr>"
      by (auto simp: GetLedger_pull_def andThen_eq_Return Let_def split: if_splits)
    with mid' [of "Some m"] Close_channelsPaired show ?thesis
      by blast
  next
    case (ErrOut x)
    with assms(2) rs p obtain r where
      "Close env (c\<lparr> metaC := OpenChan rs', nextLedger := nextL' \<rparr>) = Return (r, c')"
      by (auto simp: GetLedger_pull_def andThen_eq_Return)
    from Close_channelsPaired [OF mid this] show ?thesis .
  next
    case Starved
    with assms(2) rs p show ?thesis
      by (simp add: GetLedger_pull_def)
  next
    case (Crashed x)
    with assms(2) rs p show ?thesis
      by (simp add: GetLedger_pull_def)
  qed
qed

lemma GetLedger_channelsPaired:
  assumes "channelsPaired c" and "GetLedger env c sequence = Return (res, c')"
  shows "channelsPaired c'"
proof (cases "cacheHit c sequence")
  case True
  with assms show ?thesis
    by (auto simp: GetLedger_def)
next
  case False
  let ?first = "if \<not> IsClosed c \<and> \<not> LedgerWithinCheckpoints c sequence numCheckpointsLeeway
                then Close env c else Return (None, c)"
  from assms(2) False obtain r c1 where f: "?first = Return (r, c1)"
    by (auto simp: GetLedger_def andThen_eq_Return)
  have p1: "channelsPaired c1"
    using f assms(1) Close_channelsPaired [of c env r c1] by (auto split: if_splits)
  let ?second = "if IsClosed c1
                 then openOfflineReplaySubprocess env c1 sequence (sequence + ledgersPerProcess)
                 else Return (None, c1)"
  from assms(2) False f obtain e c2 where s: "?second = Return (e, c2)"
    by (auto simp: GetLedger_def andThen_eq_Return)
  have p2: "channelsPaired c2"
    using s p1 openOfflineReplaySubprocess_channelsPaired
      [of c1 env sequence "sequence + ledgersPerProcess" e c2]
    by (auto split: if_splits)
  from assms(2) False f s have rest: "(case e of
            Some e' \<Rightarrow>
              Return ((False, emptyLedgerCloseMeta, Some (errors_Wrap e' ''opening subprocess'')), c2)
          | None \<Rightarrow>
              if \<not> LedgerWithinCheckpoints c2 sequence 1 then
                Return ((False, emptyLedgerCloseMeta,
                         Some ''unexpected subprocess next-ledger''), c2)
              else GetLedger_pull env c2 sequence) = Return (res, c')"
    by (simp add: GetLedger_def)
  show ?thesis
  proof (cases "e = None \<and> LedgerWithinCheckpoints c2 sequence 1")
    case True
    with rest have "GetLedger_pull env c2 sequence = Return (res, c')"
      by simp
    from GetLedger_pull_channelsPaired [OF p2 this] show ?thesis .
  next
    case False
    with rest have "c' = c2"
      by (cases e) (auto split: if_splits)
    with p2 show ?thesis
      by simp
  qed
qed

lemma PrepareRange_channelsPaired:
  assumes "channelsPaired c" and "PrepareRange env c from to = Return (e, c')"
  shows "channelsPaired c'"
proof -
  from assms(2) obtain e1 c1 where
    o: "openOfflineReplaySubprocess env c (from - 1) to = Return (e1, c1)"
    by (auto simp: PrepareRange_def andThen_eq_Return)
  from openOfflineReplaySubprocess_channelsPaired [OF assms(1) o] have p1: "channelsPaired c1" .
  show ?thesis
  proof (cases "e1 = None \<and> stellarCoreRunner c1 \<noteq> None")
    case False
    with assms(2) o have "c' = c1"
      by (cases e1) (auto simp: PrepareRange_def)
    with p1 show ?thesis
      by simp
  next
    case True
    with assms(2) o obtain res where "GetLedger env c1 (from - 1) = Return (res, c')"
      by (auto simp: PrepareRange_def andThen_eq_Return split: option.splits)
    from GetLedger_channelsPaired [OF p1 this] show ?thesis .
  qed
qed

text \<open>
  Every reachable backend has its channels paired and no record of sequence 0 in its
  cache. So on a reachable backend \<^verbatim>\<open>Close\<close> returns, and the stop channel is open whenever
  the channel of records is.
\<close>

lemma reachable_invariant:
  "reachable c \<Longrightarrow> channelsPaired c \<and> \<not> cacheHit c 0"
proof (induction rule: reachable.induct)
  case (reachable_new executablePath passphrase urls)
  show ?case
    by (simp add: channelsPaired_def cacheHit_def NewCaptive_def IsClosed_def)
next
  case (reachable_GetLedger c env sequence res c')
  then show ?case
    using GetLedger_channelsPaired GetLedger_keeps_zero_uncached by blast
next
  case (reachable_PrepareRange c env "from" to e c')
  then show ?case
    using PrepareRange_channelsPaired PrepareRange_keeps_zero_uncached by blast
next
  case (reachable_Close c env e c')
  then show ?case
    using Close_channelsPaired cacheHit_Close by blast
next
  case (reachable_GetLatestLedgerSequence c env r c')
  from GetLatestLedgerSequence_Return [of env c "fst r" "snd r" c']
    reachable_GetLatestLedgerSequence
  show ?case
    by (simp add: cacheHit_def)
qed

lemma reachable_Close_returns:
  "reachable c \<Longrightarrow> \<exists>r c'. Close env c = Return (r, c')"
  using reachable_invariant Close_channelsPaired_returns by blast

lemma reachable_stop_open:
  "reachable c \<Longrightarrow> metaC c = OpenChan rs \<Longrightarrow> stop c = OpenChan ()"
  using reachable_invariant [of c] by (simp add: channelsPaired_def)

text \<open>
  C8, as amended. On every reachable backend, whatever \<open>to\<close> is and whatever the
  collaborators answer, \<^verbatim>\<open>PrepareRange(1, to)\<close> never returns \<^verbatim>\<open>nil\<close> and never blocks, and
  when there is an archive URL it returns an error: its probe asks for ledger 0. (Ledger 1
  itself can still be read by \<^verbatim>\<open>GetLedger(1)\<close>.)
\<close>

theorem PrepareRange_one_fails:
  "reachable c \<longrightarrow>
     (\<forall>c'. PrepareRange env c 1 to \<noteq> Return (None, c')) \<and>
     PrepareRange env c 1 to \<noteq> Blocked \<and>
     (historyURLs c \<noteq> [] \<longrightarrow> (\<exists>e c'. PrepareRange env c 1 to = Return (Some e, c')))"
proof
  assume r: "reachable c"
  from reachable_invariant [OF r] have miss: "\<not> cacheHit c 0"
    by simp
  from reachable_Close_returns [OF r, of env] obtain r1 c1 where
    cl: "Close env c = Return (r1, c1)"
    by blast
  from PrepareRange_one_uncached [of c env to r1 c1] miss cl
  show "(\<forall>c'. PrepareRange env c 1 to \<noteq> Return (None, c')) \<and>
     PrepareRange env c 1 to \<noteq> Blocked \<and>
     (historyURLs c \<noteq> [] \<longrightarrow> (\<exists>e c'. PrepareRange env c 1 to = Return (Some e, c')))"
    by blast
qed

theorem PrepareRange_one_fails_witness:
  "reachable freshBackend \<and> historyURLs freshBackend \<noteq> [] \<and>
   (\<exists>e c'. PrepareRange (faithfulEnv 100) freshBackend 1 50 = Return (Some e, c')) \<and>
   PrepareRange (faithfulEnv 100) freshBackend 1 50 \<noteq> Blocked"
proof -
  have r: "reachable freshBackend"
    unfolding freshBackend_def by (rule reachable_new)
  have u: "historyURLs freshBackend \<noteq> []"
    by (simp add: freshBackend_def NewCaptive_def)
  from PrepareRange_one_fails [of freshBackend "faithfulEnv 100" 50] r u
  show ?thesis
    by blast
qed

subsection \<open>Which errors leave the backend open\<close>

text \<open>
  An error returned by \<^verbatim>\<open>GetLedger\<close> leaves the backend closed, unless it is the one of lines
  236 to 238; an error returned by \<^verbatim>\<open>PrepareRange\<close> leaves the backend closed, unless it is
  that one, or the one of lines 198 to 200.
\<close>

lemma GetLedger_error_closed:
  assumes "GetLedger env c sequence = Return ((found, m, Some e), c')"
  shows "IsClosed c' \<or> e = ''unexpected subprocess next-ledger''"
proof (cases "cacheHit c sequence")
  case True
  with assms show ?thesis
    by (simp add: GetLedger_def)
next
  case False
  let ?first = "if \<not> IsClosed c \<and> \<not> LedgerWithinCheckpoints c sequence numCheckpointsLeeway
                then Close env c else Return (None, c)"
  from assms False obtain r c1 where f: "?first = Return (r, c1)"
    by (auto simp: GetLedger_def andThen_eq_Return)
  let ?second = "if IsClosed c1
                 then openOfflineReplaySubprocess env c1 sequence (sequence + ledgersPerProcess)
                 else Return (None, c1)"
  from assms False f obtain e1 c2 where s: "?second = Return (e1, c2)"
    by (auto simp: GetLedger_def andThen_eq_Return)
  have failed: "e1 \<noteq> None \<longrightarrow> IsClosed c2"
    using s openOfflineReplaySubprocess_Return
      [of env c1 sequence "sequence + ledgersPerProcess" e1 c2]
    by (auto split: if_splits)
  from assms False f s have rest: "(case e1 of
            Some e' \<Rightarrow>
              Return ((False, emptyLedgerCloseMeta, Some (errors_Wrap e' ''opening subprocess'')), c2)
          | None \<Rightarrow>
              if \<not> LedgerWithinCheckpoints c2 sequence 1 then
                Return ((False, emptyLedgerCloseMeta,
                         Some ''unexpected subprocess next-ledger''), c2)
              else GetLedger_pull env c2 sequence) = Return ((found, m, Some e), c')"
    by (simp add: GetLedger_def)
  show ?thesis
  proof (cases e1)
    case (Some e')
    with rest failed show ?thesis
      by auto
  next
    case None
    show ?thesis
    proof (cases "LedgerWithinCheckpoints c2 sequence 1")
      case True
      with rest None have "GetLedger_pull env c2 sequence = Return ((found, m, Some e), c')"
        by simp
      from GetLedger_pull_Return [OF this] show ?thesis
        by auto
    next
      case False
      with rest None show ?thesis
        by auto
    qed
  qed
qed

lemma PrepareRange_error_closed:
  assumes "PrepareRange env c from to = Return (Some e, c')"
  shows "IsClosed c' \<or> e = ''missing metadata pipe'' \<or>
         e = ''opening getting ledger `from-1`: unexpected subprocess next-ledger''"
proof -
  from assms obtain e1 c1 where
    o: "openOfflineReplaySubprocess env c (from - 1) to = Return (e1, c1)"
    by (auto simp: PrepareRange_def andThen_eq_Return)
  show ?thesis
  proof (cases e1)
    case (Some e')
    with assms o openOfflineReplaySubprocess_Return [OF o] show ?thesis
      by (auto simp: PrepareRange_def)
  next
    case None
    show ?thesis
    proof (cases "stellarCoreRunner c1 = None")
      case True
      with assms o None show ?thesis
        by (auto simp: PrepareRange_def)
    next
      case False
      with assms o None obtain found m e2 where
        g: "GetLedger env c1 (from - 1) = Return ((found, m, Some e2), c')" and
        e: "e = errors_Wrap e2 ''opening getting ledger `from-1`''"
        by (auto simp: PrepareRange_def andThen_eq_Return split: option.splits)
      from GetLedger_error_closed [OF g] e show ?thesis
        by (auto simp: errors_Wrap_def)
    qed
  qed
qed

text \<open>
  C2 fails on the code: two of the returns of an error leave the backend open. On three
  inputs:
  \<^item> \<^verbatim>\<open>GetLedger\<close>, lines 236 to 238: with the backend open at \<^verbatim>\<open>nextLedger = 151\<close>,
    \<^verbatim>\<open>GetLedger(400)\<close> is within ten checkpoints but not within one, and returns
    ``unexpected subprocess next-ledger'' with the backend unchanged.
  \<^item> The same return, reached from \<^verbatim>\<open>PrepareRange(1, 50)\<close> on a new backend, leaves
    \<^verbatim>\<open>nextLedger = 1\<close>.
  \<^item> \<^verbatim>\<open>PrepareRange\<close>, lines 198 to 200: when the runner has no pipe, ``missing metadata pipe''
    is returned with \<^verbatim>\<open>nextLedger\<close> at the start of the checkpoint.
\<close>

theorem error_leaves_backend_open:
  "nextLedger afterRead = 151 \<and>
   GetLedger (faithfulEnv 200) afterRead 400 =
     Return ((False, emptyLedgerCloseMeta, Some ''unexpected subprocess next-ledger''),
             afterRead) \<and>
   \<not> IsClosed afterRead \<and>
   returned (PrepareRange (faithfulEnv 100) freshBackend 1 50) =
     Some (Some ''opening getting ledger `from-1`: unexpected subprocess next-ledger'') \<and>
   map_option nextLedger (stateAfter (PrepareRange (faithfulEnv 100) freshBackend 1 50)) =
     Some 1 \<and>
   returned (PrepareRange (pipelessEnv 100) freshBackend 10 50) =
     Some (Some ''missing metadata pipe'') \<and>
   map_option nextLedger (stateAfter (PrepareRange (pipelessEnv 100) freshBackend 10 50)) =
     Some 1 \<and>
   map_option IsClosed (stateAfter (PrepareRange (pipelessEnv 100) freshBackend 10 50)) =
     Some False"
  by code_simp

end
